theory Spec2Isabelle
  imports Complex_Main "HOL-Library.Word" "HOL-Library.Sublist"
begin

section \<open>JavaScript strings\<close>

text \<open>
  A JavaScript string is a sequence of 16-bit UTF-16 code units. Indexing (\<open>s[i]\<close>),
  \<open>length\<close> and regular expressions without the \<open>u\<close> flag work on code units; the
  string iterator (\<open>[...str]\<close>) and \<open>codePointAt\<close> combine a high surrogate that is
  followed by a low surrogate into one code point.
\<close>

type_synonym jsstring = "16 word list"

definition isHighSurrogate :: "16 word \<Rightarrow> bool" where
  "isHighSurrogate u = (0xD800 \<le> u \<and> u \<le> 0xDBFF)"

definition isLowSurrogate :: "16 word \<Rightarrow> bool" where
  "isLowSurrogate u = (0xDC00 \<le> u \<and> u \<le> 0xDFFF)"

definition pairCodePoint :: "16 word \<Rightarrow> 16 word \<Rightarrow> nat" where
  "pairCodePoint hi lo = (unat hi - 0xD800) * 0x400 + (unat lo - 0xDC00) + 0x10000"

text \<open>\<open>[...str]\<close>: the string iterator yields one string per code point; a surrogate
  that has no partner is yielded alone.\<close>

fun spread :: "jsstring \<Rightarrow> jsstring list" where
  "spread [] = []"
| "spread [u] = [[u]]"
| "spread (u # v # rest) =
     (if isHighSurrogate u \<and> isLowSurrogate v then [u, v] # spread rest
      else [u] # spread (v # rest))"

text \<open>\<open>str.codePointAt(0)\<close>; \<open>None\<close> is \<open>undefined\<close> (the empty string).\<close>

fun codePointAt0 :: "jsstring \<Rightarrow> nat option" where
  "codePointAt0 [] = None"
| "codePointAt0 [u] = Some (unat u)"
| "codePointAt0 (u # v # rest) =
     (if isHighSurrogate u \<and> isLowSurrogate v then Some (pairCodePoint u v)
      else Some (unat u))"

text \<open>\<open>String.fromCodePoint(n)\<close> for \<open>n \<le> 0x10FFFF\<close> (every number in the property
  table is in that range).\<close>

definition fromCodePoint :: "nat \<Rightarrow> jsstring" where
  "fromCodePoint n =
     (if n < 0x10000 then [of_nat n]
      else [of_nat (0xD800 + (n - 0x10000) div 0x400), of_nat (0xDC00 + (n - 0x10000) mod 0x400)])"

text \<open>The code point that a one-code-point string stands for: the inverse of
  \<open>fromCodePoint\<close>. A string of any other shape is no element of a set that was filled
  by \<open>String.fromCodePoint\<close>.\<close>

fun codePointOf :: "jsstring \<Rightarrow> nat option" where
  "codePointOf [u] = Some (unat u)"
| "codePointOf [u, v] =
     (if isHighSurrogate u \<and> isLowSurrogate v then Some (pairCodePoint u v) else None)"
| "codePointOf s = None"

text \<open>\<open>s.replace(/pat/g, rep)\<close> for a pattern that is a fixed, non-empty sequence of
  code units (all ten patterns of \<open>segment\<close> are) and a replacement without \<open>$\<close>:
  matches are found left to right and do not overlap.\<close>

function replaceAll :: "jsstring \<Rightarrow> jsstring \<Rightarrow> jsstring \<Rightarrow> jsstring" where
  "replaceAll pat rep [] = []"
| "replaceAll pat rep (u # us) =
     (if pat \<noteq> [] \<and> prefix pat (u # us)
      then rep @ replaceAll pat rep (drop (length pat) (u # us))
      else u # replaceAll pat rep us)"
  by pat_completeness auto
termination
  by (relation "measure (\<lambda>(pat, rep, s). length s)") auto

section \<open>Unicode property tables\<close>

text \<open>
  \<open>RAW_PROPERTY_LIST\<close> is the Unicode grapheme break property file. The initializer of
  \<open>SETS\<close> reads it line by line and, for the lines whose category is \<open>Prepend\<close>,
  \<open>Control\<close>, \<open>Extend\<close> or \<open>SpacingMark\<close>, adds \<open>String.fromCodePoint(n)\<close> to the
  set of that category for every \<open>n\<close> of the line's inclusive range. The four lists
  below are those lines, in file order, as pairs (first, last).
\<close>

definition PREPEND_RANGES :: "(nat \<times> nat) list" where
  "PREPEND_RANGES = [
    (0x0600, 0x0605), (0x06DD, 0x06DD), (0x070F, 0x070F), (0x0890, 0x0891), (0x08E2, 0x08E2),
    (0x0D4E, 0x0D4E), (0x110BD, 0x110BD), (0x110CD, 0x110CD), (0x111C2, 0x111C3),
    (0x1193F, 0x1193F), (0x11941, 0x11941), (0x11A3A, 0x11A3A), (0x11A84, 0x11A89),
    (0x11D46, 0x11D46), (0x11F02, 0x11F02)]"

definition CONTROL_RANGES :: "(nat \<times> nat) list" where
  "CONTROL_RANGES = [
    (0x0000, 0x0009), (0x000B, 0x000C), (0x000E, 0x001F), (0x007F, 0x009F), (0x00AD, 0x00AD),
    (0x061C, 0x061C), (0x180E, 0x180E), (0x200B, 0x200B), (0x200E, 0x200F), (0x2028, 0x2028),
    (0x2029, 0x2029), (0x202A, 0x202E), (0x2060, 0x2064), (0x2065, 0x2065), (0x2066, 0x206F),
    (0xFEFF, 0xFEFF), (0xFFF0, 0xFFF8), (0xFFF9, 0xFFFB), (0x13430, 0x1343F),
    (0x1BCA0, 0x1BCA3), (0x1D173, 0x1D17A), (0xE0000, 0xE0000), (0xE0001, 0xE0001),
    (0xE0002, 0xE001F), (0xE0080, 0xE00FF), (0xE01F0, 0xE0FFF)]"

definition EXTEND_RANGES :: "(nat \<times> nat) list" where
  "EXTEND_RANGES = [
    (0x0300, 0x036F), (0x0483, 0x0487), (0x0488, 0x0489), (0x0591, 0x05BD), (0x05BF, 0x05BF),
    (0x05C1, 0x05C2), (0x05C4, 0x05C5), (0x05C7, 0x05C7), (0x0610, 0x061A), (0x064B, 0x065F),
    (0x0670, 0x0670), (0x06D6, 0x06DC), (0x06DF, 0x06E4), (0x06E7, 0x06E8), (0x06EA, 0x06ED),
    (0x0711, 0x0711), (0x0730, 0x074A), (0x07A6, 0x07B0), (0x07EB, 0x07F3), (0x07FD, 0x07FD),
    (0x0816, 0x0819), (0x081B, 0x0823), (0x0825, 0x0827), (0x0829, 0x082D), (0x0859, 0x085B),
    (0x0898, 0x089F), (0x08CA, 0x08E1), (0x08E3, 0x0902), (0x093A, 0x093A), (0x093C, 0x093C),
    (0x0941, 0x0948), (0x094D, 0x094D), (0x0951, 0x0957), (0x0962, 0x0963), (0x0981, 0x0981),
    (0x09BC, 0x09BC), (0x09BE, 0x09BE), (0x09C1, 0x09C4), (0x09CD, 0x09CD), (0x09D7, 0x09D7),
    (0x09E2, 0x09E3), (0x09FE, 0x09FE), (0x0A01, 0x0A02), (0x0A3C, 0x0A3C), (0x0A41, 0x0A42),
    (0x0A47, 0x0A48), (0x0A4B, 0x0A4D), (0x0A51, 0x0A51), (0x0A70, 0x0A71), (0x0A75, 0x0A75),
    (0x0A81, 0x0A82), (0x0ABC, 0x0ABC), (0x0AC1, 0x0AC5), (0x0AC7, 0x0AC8), (0x0ACD, 0x0ACD),
    (0x0AE2, 0x0AE3), (0x0AFA, 0x0AFF), (0x0B01, 0x0B01), (0x0B3C, 0x0B3C), (0x0B3E, 0x0B3E),
    (0x0B3F, 0x0B3F), (0x0B41, 0x0B44), (0x0B4D, 0x0B4D), (0x0B55, 0x0B56), (0x0B57, 0x0B57),
    (0x0B62, 0x0B63), (0x0B82, 0x0B82), (0x0BBE, 0x0BBE), (0x0BC0, 0x0BC0), (0x0BCD, 0x0BCD),
    (0x0BD7, 0x0BD7), (0x0C00, 0x0C00), (0x0C04, 0x0C04), (0x0C3C, 0x0C3C), (0x0C3E, 0x0C40),
    (0x0C46, 0x0C48), (0x0C4A, 0x0C4D), (0x0C55, 0x0C56), (0x0C62, 0x0C63), (0x0C81, 0x0C81),
    (0x0CBC, 0x0CBC), (0x0CBF, 0x0CBF), (0x0CC2, 0x0CC2), (0x0CC6, 0x0CC6), (0x0CCC, 0x0CCD),
    (0x0CD5, 0x0CD6), (0x0CE2, 0x0CE3), (0x0D00, 0x0D01), (0x0D3B, 0x0D3C), (0x0D3E, 0x0D3E),
    (0x0D41, 0x0D44), (0x0D4D, 0x0D4D), (0x0D57, 0x0D57), (0x0D62, 0x0D63), (0x0D81, 0x0D81),
    (0x0DCA, 0x0DCA), (0x0DCF, 0x0DCF), (0x0DD2, 0x0DD4), (0x0DD6, 0x0DD6), (0x0DDF, 0x0DDF),
    (0x0E31, 0x0E31), (0x0E34, 0x0E3A), (0x0E47, 0x0E4E), (0x0EB1, 0x0EB1), (0x0EB4, 0x0EBC),
    (0x0EC8, 0x0ECE), (0x0F18, 0x0F19), (0x0F35, 0x0F35), (0x0F37, 0x0F37), (0x0F39, 0x0F39),
    (0x0F71, 0x0F7E), (0x0F80, 0x0F84), (0x0F86, 0x0F87), (0x0F8D, 0x0F97), (0x0F99, 0x0FBC),
    (0x0FC6, 0x0FC6), (0x102D, 0x1030), (0x1032, 0x1037), (0x1039, 0x103A), (0x103D, 0x103E),
    (0x1058, 0x1059), (0x105E, 0x1060), (0x1071, 0x1074), (0x1082, 0x1082), (0x1085, 0x1086),
    (0x108D, 0x108D), (0x109D, 0x109D), (0x135D, 0x135F), (0x1712, 0x1714), (0x1732, 0x1733),
    (0x1752, 0x1753), (0x1772, 0x1773), (0x17B4, 0x17B5), (0x17B7, 0x17BD), (0x17C6, 0x17C6),
    (0x17C9, 0x17D3), (0x17DD, 0x17DD), (0x180B, 0x180D), (0x180F, 0x180F), (0x1885, 0x1886),
    (0x18A9, 0x18A9), (0x1920, 0x1922), (0x1927, 0x1928), (0x1932, 0x1932), (0x1939, 0x193B),
    (0x1A17, 0x1A18), (0x1A1B, 0x1A1B), (0x1A56, 0x1A56), (0x1A58, 0x1A5E), (0x1A60, 0x1A60),
    (0x1A62, 0x1A62), (0x1A65, 0x1A6C), (0x1A73, 0x1A7C), (0x1A7F, 0x1A7F), (0x1AB0, 0x1ABD),
    (0x1ABE, 0x1ABE), (0x1ABF, 0x1ACE), (0x1B00, 0x1B03), (0x1B34, 0x1B34), (0x1B35, 0x1B35),
    (0x1B36, 0x1B3A), (0x1B3C, 0x1B3C), (0x1B42, 0x1B42), (0x1B6B, 0x1B73), (0x1B80, 0x1B81),
    (0x1BA2, 0x1BA5), (0x1BA8, 0x1BA9), (0x1BAB, 0x1BAD), (0x1BE6, 0x1BE6), (0x1BE8, 0x1BE9),
    (0x1BED, 0x1BED), (0x1BEF, 0x1BF1), (0x1C2C, 0x1C33), (0x1C36, 0x1C37), (0x1CD0, 0x1CD2),
    (0x1CD4, 0x1CE0), (0x1CE2, 0x1CE8), (0x1CED, 0x1CED), (0x1CF4, 0x1CF4), (0x1CF8, 0x1CF9),
    (0x1DC0, 0x1DFF), (0x200C, 0x200C), (0x20D0, 0x20DC), (0x20DD, 0x20E0), (0x20E1, 0x20E1),
    (0x20E2, 0x20E4), (0x20E5, 0x20F0), (0x2CEF, 0x2CF1), (0x2D7F, 0x2D7F), (0x2DE0, 0x2DFF),
    (0x302A, 0x302D), (0x302E, 0x302F), (0x3099, 0x309A), (0xA66F, 0xA66F), (0xA670, 0xA672),
    (0xA674, 0xA67D), (0xA69E, 0xA69F), (0xA6F0, 0xA6F1), (0xA802, 0xA802), (0xA806, 0xA806),
    (0xA80B, 0xA80B), (0xA825, 0xA826), (0xA82C, 0xA82C), (0xA8C4, 0xA8C5), (0xA8E0, 0xA8F1),
    (0xA8FF, 0xA8FF), (0xA926, 0xA92D), (0xA947, 0xA951), (0xA980, 0xA982), (0xA9B3, 0xA9B3),
    (0xA9B6, 0xA9B9), (0xA9BC, 0xA9BD), (0xA9E5, 0xA9E5), (0xAA29, 0xAA2E), (0xAA31, 0xAA32),
    (0xAA35, 0xAA36), (0xAA43, 0xAA43), (0xAA4C, 0xAA4C), (0xAA7C, 0xAA7C), (0xAAB0, 0xAAB0),
    (0xAAB2, 0xAAB4), (0xAAB7, 0xAAB8), (0xAABE, 0xAABF), (0xAAC1, 0xAAC1), (0xAAEC, 0xAAED),
    (0xAAF6, 0xAAF6), (0xABE5, 0xABE5), (0xABE8, 0xABE8), (0xABED, 0xABED), (0xFB1E, 0xFB1E),
    (0xFE00, 0xFE0F), (0xFE20, 0xFE2F), (0xFF9E, 0xFF9F), (0x101FD, 0x101FD),
    (0x102E0, 0x102E0), (0x10376, 0x1037A), (0x10A01, 0x10A03), (0x10A05, 0x10A06),
    (0x10A0C, 0x10A0F), (0x10A38, 0x10A3A), (0x10A3F, 0x10A3F), (0x10AE5, 0x10AE6),
    (0x10D24, 0x10D27), (0x10EAB, 0x10EAC), (0x10EFD, 0x10EFF), (0x10F46, 0x10F50),
    (0x10F82, 0x10F85), (0x11001, 0x11001), (0x11038, 0x11046), (0x11070, 0x11070),
    (0x11073, 0x11074), (0x1107F, 0x11081), (0x110B3, 0x110B6), (0x110B9, 0x110BA),
    (0x110C2, 0x110C2), (0x11100, 0x11102), (0x11127, 0x1112B), (0x1112D, 0x11134),
    (0x11173, 0x11173), (0x11180, 0x11181), (0x111B6, 0x111BE), (0x111C9, 0x111CC),
    (0x111CF, 0x111CF), (0x1122F, 0x11231), (0x11234, 0x11234), (0x11236, 0x11237),
    (0x1123E, 0x1123E), (0x11241, 0x11241), (0x112DF, 0x112DF), (0x112E3, 0x112EA),
    (0x11300, 0x11301), (0x1133B, 0x1133C), (0x1133E, 0x1133E), (0x11340, 0x11340),
    (0x11357, 0x11357), (0x11366, 0x1136C), (0x11370, 0x11374), (0x11438, 0x1143F),
    (0x11442, 0x11444), (0x11446, 0x11446), (0x1145E, 0x1145E), (0x114B0, 0x114B0),
    (0x114B3, 0x114B8), (0x114BA, 0x114BA), (0x114BD, 0x114BD), (0x114BF, 0x114C0),
    (0x114C2, 0x114C3), (0x115AF, 0x115AF), (0x115B2, 0x115B5), (0x115BC, 0x115BD),
    (0x115BF, 0x115C0), (0x115DC, 0x115DD), (0x11633, 0x1163A), (0x1163D, 0x1163D),
    (0x1163F, 0x11640), (0x116AB, 0x116AB), (0x116AD, 0x116AD), (0x116B0, 0x116B5),
    (0x116B7, 0x116B7), (0x1171D, 0x1171F), (0x11722, 0x11725), (0x11727, 0x1172B),
    (0x1182F, 0x11837), (0x11839, 0x1183A), (0x11930, 0x11930), (0x1193B, 0x1193C),
    (0x1193E, 0x1193E), (0x11943, 0x11943), (0x119D4, 0x119D7), (0x119DA, 0x119DB),
    (0x119E0, 0x119E0), (0x11A01, 0x11A0A), (0x11A33, 0x11A38), (0x11A3B, 0x11A3E),
    (0x11A47, 0x11A47), (0x11A51, 0x11A56), (0x11A59, 0x11A5B), (0x11A8A, 0x11A96),
    (0x11A98, 0x11A99), (0x11C30, 0x11C36), (0x11C38, 0x11C3D), (0x11C3F, 0x11C3F),
    (0x11C92, 0x11CA7), (0x11CAA, 0x11CB0), (0x11CB2, 0x11CB3), (0x11CB5, 0x11CB6),
    (0x11D31, 0x11D36), (0x11D3A, 0x11D3A), (0x11D3C, 0x11D3D), (0x11D3F, 0x11D45),
    (0x11D47, 0x11D47), (0x11D90, 0x11D91), (0x11D95, 0x11D95), (0x11D97, 0x11D97),
    (0x11EF3, 0x11EF4), (0x11F00, 0x11F01), (0x11F36, 0x11F3A), (0x11F40, 0x11F40),
    (0x11F42, 0x11F42), (0x13440, 0x13440), (0x13447, 0x13455), (0x16AF0, 0x16AF4),
    (0x16B30, 0x16B36), (0x16F4F, 0x16F4F), (0x16F8F, 0x16F92), (0x16FE4, 0x16FE4),
    (0x1BC9D, 0x1BC9E), (0x1CF00, 0x1CF2D), (0x1CF30, 0x1CF46), (0x1D165, 0x1D165),
    (0x1D167, 0x1D169), (0x1D16E, 0x1D172), (0x1D17B, 0x1D182), (0x1D185, 0x1D18B),
    (0x1D1AA, 0x1D1AD), (0x1D242, 0x1D244), (0x1DA00, 0x1DA36), (0x1DA3B, 0x1DA6C),
    (0x1DA75, 0x1DA75), (0x1DA84, 0x1DA84), (0x1DA9B, 0x1DA9F), (0x1DAA1, 0x1DAAF),
    (0x1E000, 0x1E006), (0x1E008, 0x1E018), (0x1E01B, 0x1E021), (0x1E023, 0x1E024),
    (0x1E026, 0x1E02A), (0x1E08F, 0x1E08F), (0x1E130, 0x1E136), (0x1E2AE, 0x1E2AE),
    (0x1E2EC, 0x1E2EF), (0x1E4EC, 0x1E4EF), (0x1E8D0, 0x1E8D6), (0x1E944, 0x1E94A),
    (0x1F3FB, 0x1F3FF), (0xE0020, 0xE007F), (0xE0100, 0xE01EF)]"

definition SPACING_MARK_RANGES :: "(nat \<times> nat) list" where
  "SPACING_MARK_RANGES = [
    (0x0903, 0x0903), (0x093B, 0x093B), (0x093E, 0x0940), (0x0949, 0x094C), (0x094E, 0x094F),
    (0x0982, 0x0983), (0x09BF, 0x09C0), (0x09C7, 0x09C8), (0x09CB, 0x09CC), (0x0A03, 0x0A03),
    (0x0A3E, 0x0A40), (0x0A83, 0x0A83), (0x0ABE, 0x0AC0), (0x0AC9, 0x0AC9), (0x0ACB, 0x0ACC),
    (0x0B02, 0x0B03), (0x0B40, 0x0B40), (0x0B47, 0x0B48), (0x0B4B, 0x0B4C), (0x0BBF, 0x0BBF),
    (0x0BC1, 0x0BC2), (0x0BC6, 0x0BC8), (0x0BCA, 0x0BCC), (0x0C01, 0x0C03), (0x0C41, 0x0C44),
    (0x0C82, 0x0C83), (0x0CBE, 0x0CBE), (0x0CC0, 0x0CC1), (0x0CC3, 0x0CC4), (0x0CC7, 0x0CC8),
    (0x0CCA, 0x0CCB), (0x0CF3, 0x0CF3), (0x0D02, 0x0D03), (0x0D3F, 0x0D40), (0x0D46, 0x0D48),
    (0x0D4A, 0x0D4C), (0x0D82, 0x0D83), (0x0DD0, 0x0DD1), (0x0DD8, 0x0DDE), (0x0DF2, 0x0DF3),
    (0x0E33, 0x0E33), (0x0EB3, 0x0EB3), (0x0F3E, 0x0F3F), (0x0F7F, 0x0F7F), (0x1031, 0x1031),
    (0x103B, 0x103C), (0x1056, 0x1057), (0x1084, 0x1084), (0x1715, 0x1715), (0x1734, 0x1734),
    (0x17B6, 0x17B6), (0x17BE, 0x17C5), (0x17C7, 0x17C8), (0x1923, 0x1926), (0x1929, 0x192B),
    (0x1930, 0x1931), (0x1933, 0x1938), (0x1A19, 0x1A1A), (0x1A55, 0x1A55), (0x1A57, 0x1A57),
    (0x1A6D, 0x1A72), (0x1B04, 0x1B04), (0x1B3B, 0x1B3B), (0x1B3D, 0x1B41), (0x1B43, 0x1B44),
    (0x1B82, 0x1B82), (0x1BA1, 0x1BA1), (0x1BA6, 0x1BA7), (0x1BAA, 0x1BAA), (0x1BE7, 0x1BE7),
    (0x1BEA, 0x1BEC), (0x1BEE, 0x1BEE), (0x1BF2, 0x1BF3), (0x1C24, 0x1C2B), (0x1C34, 0x1C35),
    (0x1CE1, 0x1CE1), (0x1CF7, 0x1CF7), (0xA823, 0xA824), (0xA827, 0xA827), (0xA880, 0xA881),
    (0xA8B4, 0xA8C3), (0xA952, 0xA953), (0xA983, 0xA983), (0xA9B4, 0xA9B5), (0xA9BA, 0xA9BB),
    (0xA9BE, 0xA9C0), (0xAA2F, 0xAA30), (0xAA33, 0xAA34), (0xAA4D, 0xAA4D), (0xAAEB, 0xAAEB),
    (0xAAEE, 0xAAEF), (0xAAF5, 0xAAF5), (0xABE3, 0xABE4), (0xABE6, 0xABE7), (0xABE9, 0xABEA),
    (0xABEC, 0xABEC), (0x11000, 0x11000), (0x11002, 0x11002), (0x11082, 0x11082),
    (0x110B0, 0x110B2), (0x110B7, 0x110B8), (0x1112C, 0x1112C), (0x11145, 0x11146),
    (0x11182, 0x11182), (0x111B3, 0x111B5), (0x111BF, 0x111C0), (0x111CE, 0x111CE),
    (0x1122C, 0x1122E), (0x11232, 0x11233), (0x11235, 0x11235), (0x112E0, 0x112E2),
    (0x11302, 0x11303), (0x1133F, 0x1133F), (0x11341, 0x11344), (0x11347, 0x11348),
    (0x1134B, 0x1134D), (0x11362, 0x11363), (0x11435, 0x11437), (0x11440, 0x11441),
    (0x11445, 0x11445), (0x114B1, 0x114B2), (0x114B9, 0x114B9), (0x114BB, 0x114BC),
    (0x114BE, 0x114BE), (0x114C1, 0x114C1), (0x115B0, 0x115B1), (0x115B8, 0x115BB),
    (0x115BE, 0x115BE), (0x11630, 0x11632), (0x1163B, 0x1163C), (0x1163E, 0x1163E),
    (0x116AC, 0x116AC), (0x116AE, 0x116AF), (0x116B6, 0x116B6), (0x11726, 0x11726),
    (0x1182C, 0x1182E), (0x11838, 0x11838), (0x11931, 0x11935), (0x11937, 0x11938),
    (0x1193D, 0x1193D), (0x11940, 0x11940), (0x11942, 0x11942), (0x119D1, 0x119D3),
    (0x119DC, 0x119DF), (0x119E4, 0x119E4), (0x11A39, 0x11A39), (0x11A57, 0x11A58),
    (0x11A97, 0x11A97), (0x11C2F, 0x11C2F), (0x11C3E, 0x11C3E), (0x11CA9, 0x11CA9),
    (0x11CB1, 0x11CB1), (0x11CB4, 0x11CB4), (0x11D8A, 0x11D8E), (0x11D93, 0x11D94),
    (0x11D96, 0x11D96), (0x11EF5, 0x11EF6), (0x11F03, 0x11F03), (0x11F34, 0x11F35),
    (0x11F3E, 0x11F3F), (0x11F41, 0x11F41), (0x16F51, 0x16F87), (0x16FF0, 0x16FF1),
    (0x1D166, 0x1D166), (0x1D16D, 0x1D16D)]"

text \<open>
  The four hand-written sets, with their elements as the source lists them. An escape
  \<open>\u{...}\<close> above U+FFFF is a surrogate pair (a two-unit string), and \<open>'\u11720'\<close>
  is the two-unit string of U+1172 and the digit 0. \<open>CONSONANTS_SET\<close> is listed script
  by script, as in the source.
\<close>

definition EXCEPTIONS_SET :: "jsstring list" where
  "EXCEPTIONS_SET = [
    [0x102B], [0x102C], [0x1038], [0x1062], [0x1063], [0x1064], [0x1067], [0x1068], [0x1069],
    [0x106A], [0x106B], [0x106C], [0x106D], [0x1083], [0x1087], [0x1088], [0x1089], [0x108A],
    [0x108B], [0x108C], [0x108F], [0x109A], [0x109B], [0x109C], [0x1A61], [0x1A63], [0x1A64],
    [0xAA7B], [0xAA7D], [0x1172, 0x0030], [0x1172, 0x0031]]"

definition INVISIBLE_STACKER_SET :: "jsstring list" where
  "INVISIBLE_STACKER_SET = [
    [0xAAF6], [0xD806, 0xDD3E], [0xD807, 0xDD45], [0xD807, 0xDD97], [0x1BAB], [0xD802, 0xDE3F],
    [0xD806, 0xDE47], [0xD806, 0xDE99], [0x1039], [0xD804, 0xDD33], [0x17D2], [0x1A60]]"

definition VIRAMA_SET :: "jsstring list" where
  "VIRAMA_SET = [
    [0x094D], [0x09CD], [0x0A4D], [0x0ACD], [0x0B4D], [0x0C4D], [0x0CCD], [0x0D4D], [0x1B44],
    [0xA806], [0xA8C4], [0xD804, 0xDCB9], [0xD804, 0xDDC0], [0xD804, 0xDE35], [0xD804, 0xDF4D],
    [0xD805, 0xDC42], [0xD805, 0xDCC2], [0xD805, 0xDDBF], [0xD805, 0xDE3F], [0xD805, 0xDEB6],
    [0xD806, 0xDDE0], [0xD806, 0xDC39], [0xD804, 0xDC46], [0xD807, 0xDC3F], [0x1B44], [0xA9C0],
    [0xE001], [0xE002]]"

definition BALINESE_CONSONANTS :: "jsstring list" where
  "BALINESE_CONSONANTS = [
    [0x1B27], [0x1B29], [0x1B22], [0x1B24], [0x1B13], [0x1B15], [0x1B18], [0x1B1A], [0x1B32],
    [0x1B33], [0x1B2B], [0x1B26], [0x1B17], [0x1B1C], [0x1B2F], [0x1B2D], [0x1B2E], [0x1B2C],
    [0x1B28], [0x1B2A], [0x1B1D], [0x1B23], [0x1B25], [0x1B16], [0x1B30], [0x1B31], [0x1B21],
    [0x1B1E], [0x1B1F], [0x1B20], [0x1B14], [0x1B19], [0x1B1B], [0x1B45], [0x1B46], [0x1B47],
    [0x1B48], [0x1B49], [0x1B4A], [0x1B4B], [0x1B0B], [0x1B0C], [0x1B0D], [0x1B0E]]"

definition DEVANAGARI_CONSONANTS :: "jsstring list" where
  "DEVANAGARI_CONSONANTS = [
    [0x0915], [0x0916], [0x0917], [0x0918], [0x0919], [0x091A], [0x091B], [0x091C], [0x091D],
    [0x091E], [0x091F], [0x0920], [0x0921], [0x0922], [0x0923], [0x0924], [0x0925], [0x0926],
    [0x0927], [0x0928], [0x092A], [0x092B], [0x092C], [0x092D], [0x092E], [0x092F], [0x0930],
    [0x0932], [0x0935], [0x0936], [0x0937], [0x0938], [0x0939], [0x0933], [0x0979], [0x097A],
    [0x097B], [0x097C], [0x097E], [0x097F]]"

definition SINHALA_CONSONANTS :: "jsstring list" where
  "SINHALA_CONSONANTS = [
    [0x0D9A], [0x0D9C], [0x0D9F], [0x0DA0], [0x0DA2], [0x0DA7], [0x0DA9], [0x0DAB], [0x0DAC],
    [0x0DAD], [0x0DAF], [0x0DB3], [0x0DB4], [0x0DB6], [0x0DB8], [0x0DB9], [0x0DBA], [0x0DBB],
    [0x0DBD], [0x0DC5], [0x0DC0], [0x0DC3], [0x0DC4], [0x0D9B], [0x0D9D], [0x0DA5], [0x0D9E],
    [0x0DA1], [0x0DA3], [0x0DA4], [0x0DA6], [0x0DA8], [0x0DAA], [0x0DAE], [0x0DB0], [0x0DB1],
    [0x0DB5], [0x0DB7], [0x0DC1], [0x0DC2], [0x0DC6]]"

definition JAVANESE_CONSONANTS :: "jsstring list" where
  "JAVANESE_CONSONANTS = [
    [0xA9A7], [0xA995], [0xA9A2], [0xA99D], [0xA992], [0xA9B2], [0xA997], [0xA98F], [0xA9AD],
    [0xA9A9], [0xA9A4], [0xA99A], [0xA994], [0xA9A5], [0xA9AB], [0xA9B1], [0xA9A0], [0xA99B],
    [0xA9AE], [0xA9AA], [0xA9A8], [0xA996], [0xA993], [0xA991], [0xA99F], [0xA998], [0xA9A6],
    [0xA9AC], [0xA9AF], [0xA9A1], [0xA9A3], [0xA99E], [0xA999], [0xA9B0], [0xA99C], [0xA990],
    [0xA989], [0xA98A], [0xA98B]]"

definition MALAYALAM_CONSONANTS :: "jsstring list" where
  "MALAYALAM_CONSONANTS = [
    [0x0D15], [0x0D16], [0x0D17], [0x0D18], [0x0D19], [0x0D1A], [0x0D1B], [0x0D1C], [0x0D1D],
    [0x0D1E], [0x0D1F], [0x0D20], [0x0D21], [0x0D22], [0x0D23], [0x0D24], [0x0D25], [0x0D26],
    [0x0D27], [0x0D28], [0x0D29], [0x0D2A], [0x0D2B], [0x0D2C], [0x0D2D], [0x0D2E], [0x0D2F],
    [0x0D30], [0x0D31], [0x0D32], [0x0D33], [0x0D34], [0x0D35], [0x0D36], [0x0D37], [0x0D38],
    [0x0D39], [0x0D3A], [0x0D7A], [0x0D7B], [0x0D7C], [0x0D7D], [0x0D7E], [0x0D7F]]"

definition BENGALI_CONSONANTS :: "jsstring list" where
  "BENGALI_CONSONANTS = [
    [0x09AA], [0x09AB], [0x09AC], [0x09AD], [0x09A4], [0x09A5], [0x09A6], [0x09A7], [0x099F],
    [0x09A0], [0x09A1], [0x09A2], [0x0995], [0x0996], [0x0997], [0x0998], [0x099A], [0x099B],
    [0x099C], [0x09AF], [0x099D], [0x09B8], [0x09B6], [0x09B7], [0x09B9], [0x09AE], [0x09A8],
    [0x0999], [0x099E], [0x09A3], [0x09F1], [0x09B0], [0x09F0], [0x09B2], [0x09CE]]"

definition GURMUKHI_CONSONANTS :: "jsstring list" where
  "GURMUKHI_CONSONANTS = [
    [0x0A2A], [0x0A2D], [0x0A2C], [0x0A2B], [0x0A24], [0x0A27], [0x0A26], [0x0A25], [0x0A1A],
    [0x0A1D], [0x0A1C], [0x0A1B], [0x0A1F], [0x0A22], [0x0A21], [0x0A20], [0x0A15], [0x0A18],
    [0x0A17], [0x0A16], [0x0A35], [0x0A38], [0x0A39], [0x0A2E], [0x0A28], [0x0A1E], [0x0A23],
    [0x0A19], [0x0A2F], [0x0A30], [0x0A5C], [0x0A32], [0x0A2B, 0x0A3C], [0x0A1C, 0x0A3C],
    [0x0A38, 0x0A3C], [0x0A16, 0x0A3C], [0x0A17, 0x0A3C], [0x0A32, 0x0A3C], [0x0A72], [0x0A73]]"

definition CONSONANTS_SET :: "jsstring list" where
  "CONSONANTS_SET = BALINESE_CONSONANTS @ DEVANAGARI_CONSONANTS @ SINHALA_CONSONANTS
     @ JAVANESE_CONSONANTS @ MALAYALAM_CONSONANTS @ BENGALI_CONSONANTS @ GURMUKHI_CONSONANTS"

definition in_ranges :: "(nat \<times> nat) list \<Rightarrow> nat \<Rightarrow> bool" where
  "in_ranges rs c = list_ex (\<lambda>(lo, hi). lo \<le> c \<and> c \<le> hi) rs"

text \<open>\<open>S.has(s)\<close> for a set filled from the table: \<open>s\<close> is \<open>String.fromCodePoint(n)\<close>
  for some \<open>n\<close> of a range.\<close>

definition table_has :: "(nat \<times> nat) list \<Rightarrow> jsstring \<Rightarrow> bool" where
  "table_has rs s = (case codePointOf s of None \<Rightarrow> False | Some c \<Rightarrow> in_ranges rs c)"

definition PREPEND_SET_has :: "jsstring \<Rightarrow> bool" where
  "PREPEND_SET_has s = table_has PREPEND_RANGES s"

definition CONTROL_SET_has :: "jsstring \<Rightarrow> bool" where
  "CONTROL_SET_has s = table_has CONTROL_RANGES s"

text \<open>After the table is read, U+E006 and U+E007 are added to \<open>Extend\<close>.\<close>

definition EXTEND_SET_has :: "jsstring \<Rightarrow> bool" where
  "EXTEND_SET_has s = (table_has EXTEND_RANGES s \<or> s = [0xE006] \<or> s = [0xE007])"

definition SPACING_MARK_SET_has :: "jsstring \<Rightarrow> bool" where
  "SPACING_MARK_SET_has s = table_has SPACING_MARK_RANGES s"

text \<open>\<open>S.has(x)\<close> for a set given by its elements; \<open>x\<close> is \<open>None\<close> when the index
  expression is \<open>undefined\<close>, which no set of strings contains.\<close>

definition set_has :: "jsstring list \<Rightarrow> jsstring option \<Rightarrow> bool" where
  "set_has S x = (case x of None \<Rightarrow> False | Some s \<Rightarrow> s \<in> set S)"

text \<open>\<open>s[s.length - 1]\<close> and \<open>s[0]\<close>: a one-unit string, or \<open>undefined\<close>.\<close>

definition lastUnit :: "jsstring \<Rightarrow> jsstring option" where
  "lastUnit s = (if s = [] then None else Some [last s])"

definition firstUnit :: "jsstring \<Rightarrow> jsstring option" where
  "firstUnit s = (case s of [] \<Rightarrow> None | u # us \<Rightarrow> Some [u])"

section \<open>The segmenter\<close>

text \<open>
  The loop of \<open>makeGraphemeClusters\<close> over \<open>strArray\<close>, with its variables \<open>i\<close>,
  \<open>out\<close>, \<open>clust\<close> and \<open>prependFlag\<close>; the result is \<open>out\<close> and \<open>clust\<close> when the
  loop ends.
\<close>

fun clusterLoop ::
  "jsstring list \<Rightarrow> nat \<Rightarrow> jsstring list \<Rightarrow> jsstring \<Rightarrow> bool \<Rightarrow> jsstring list \<times> jsstring" where
  "clusterLoop [] i out clust prependFlag = (out, clust)"
| "clusterLoop (c # cs) i out clust prependFlag =
     (if EXTEND_SET_has c then clusterLoop cs (i + 1) out (clust @ c) prependFlag
      else if SPACING_MARK_SET_has c then clusterLoop cs (i + 1) out (clust @ c) prependFlag
      else if CONTROL_SET_has c then clusterLoop cs (i + 1) out (clust @ c) prependFlag
      else if PREPEND_SET_has c then clusterLoop cs (i + 1) (out @ [clust]) c True
      else if prependFlag then clusterLoop cs (i + 1) out (clust @ c) False
      else clusterLoop cs (i + 1) (if i > 0 then out @ [clust] else out) c prependFlag)"

definition makeGraphemeClusters :: "jsstring \<Rightarrow> jsstring list" where
  "makeGraphemeClusters str =
     (case clusterLoop (spread str) 0 [] [] False of (out, clust) \<Rightarrow> out @ [clust])"

text \<open>The temporary tokens: the five replacements applied to every cluster, in the
  order of the source.\<close>

definition makeTokens :: "jsstring \<Rightarrow> jsstring" where
  "makeTokens v =
     replaceAll [0x0BB6, 0x0BCD, 0x007C, 0x0BB0, 0x0BC0] [0xE005]
       (replaceAll [0x0BB8, 0x0BCD, 0x007C, 0x0BB0, 0x0BC0] [0xE004]
         (replaceAll [0x0B95, 0x0BCD, 0x007C, 0x0BB7] [0xE003]
           (replaceAll [0x200D, 0x0DCA] [0xE002]
             (replaceAll [0x0DCA, 0x200D] [0xE001] v))))"

definition reinstate :: "jsstring \<Rightarrow> jsstring" where
  "reinstate v =
     replaceAll [0xE005] [0x0BB6, 0x0BCD, 0x0BB0, 0x0BC0]
       (replaceAll [0xE004] [0x0BB8, 0x0BCD, 0x0BB0, 0x0BC0]
         (replaceAll [0xE003] [0x0B95, 0x0BCD, 0x0BB7]
           (replaceAll [0xE002] [0x200D, 0x0DCA]
             (replaceAll [0xE001] [0x0DCA, 0x200D] v))))"

text \<open>The test of the merge loop on two neighbouring clusters.\<close>

definition joins :: "jsstring \<Rightarrow> jsstring \<Rightarrow> bool" where
  "joins x y =
     ((set_has VIRAMA_SET (lastUnit x) \<and> set_has CONSONANTS_SET (firstUnit y))
      \<or> set_has INVISIBLE_STACKER_SET (lastUnit x)
      \<or> set_has EXCEPTIONS_SET (firstUnit y))"

text \<open>
  The merge loop of \<open>segment\<close> over \<open>a[i]\<close>, \<open>i < a.length - 1\<close>, followed by the two
  statements after it. The argument is the rest of \<open>a\<close> from index \<open>i\<close>. An empty \<open>a\<close>
  (which \<open>makeGraphemeClusters\<close> never returns) would make \<open>a[a.length - 1]\<close>
  \<open>undefined\<close>, and \<open>clust += undefined\<close> appends the text "undefined".
\<close>

definition undefinedText :: jsstring where
  "undefinedText = [0x75, 0x6E, 0x64, 0x65, 0x66, 0x69, 0x6E, 0x65, 0x64]"

fun mergeLoop :: "jsstring list \<Rightarrow> jsstring list \<Rightarrow> jsstring \<Rightarrow> jsstring list" where
  "mergeLoop [] out clust = out @ [clust @ undefinedText]"
| "mergeLoop [x] out clust = out @ [clust @ x]"
| "mergeLoop (x # y # rest) out clust =
     (if joins x y then mergeLoop (y # rest) out (clust @ x)
      else mergeLoop (y # rest) (out @ [clust @ x]) [])"

definition segment :: "jsstring \<Rightarrow> jsstring list" where
  "segment inputStr =
     map reinstate (mergeLoop (map makeTokens (makeGraphemeClusters inputStr)) [] [])"

subsection \<open>Notions used in the properties of the segmenter\<close>

text \<open>A code point string that is in none of the four table sets.\<close>

definition ordinary :: "jsstring \<Rightarrow> bool" where
  "ordinary c = (\<not> EXTEND_SET_has c \<and> \<not> SPACING_MARK_SET_has c \<and> \<not> CONTROL_SET_has c
     \<and> \<not> PREPEND_SET_has c)"

text \<open>The strings that the string iterator yields.\<close>

fun oneCodePoint :: "jsstring \<Rightarrow> bool" where
  "oneCodePoint [u] = True"
| "oneCodePoint [h, l] = (isHighSurrogate h \<and> isLowSurrogate l)"
| "oneCodePoint s = False"

text \<open>No range of a table meets the interval from \<open>a\<close> to \<open>b\<close>.\<close>

definition outside :: "nat \<Rightarrow> nat \<Rightarrow> (nat \<times> nat) list \<Rightarrow> bool" where
  "outside a b rs = list_all (\<lambda>(lo, hi). hi < a \<or> b < lo) rs"

text \<open>Each of the three Tamil patterns of \<open>makeTokens\<close> contains U+007C followed by
  U+0BB7 or U+0BB0; \<open>nBase\<close> counts these three code units in a string.\<close>

definition tokenBase :: "16 word \<Rightarrow> bool" where
  "tokenBase u = (u = 0x007C \<or> u = 0x0BB7 \<or> u = 0x0BB0)"

definition nBase :: "jsstring \<Rightarrow> nat" where
  "nBase s = length (filter tokenBase s)"

text \<open>The five code units that \<open>reinstate\<close> replaces.\<close>

definition placeholder :: "16 word \<Rightarrow> bool" where
  "placeholder u = (u \<in> {0xE001, 0xE002, 0xE003, 0xE004, 0xE005})"

text \<open>The consonant letters of the Devanagari block: KA to HA (U+0915 to U+0939), the
  letters with nukta QA to YYA (U+0958 to U+095F), and U+0978 to U+097F.\<close>

definition devanagariConsonantLetter :: "16 word \<Rightarrow> bool" where
  "devanagariConsonantLetter u =
     ((0x0915 \<le> u \<and> u \<le> 0x0939) \<or> (0x0958 \<le> u \<and> u \<le> 0x095F) \<or> (0x0978 \<le> u \<and> u \<le> 0x097F))"

section \<open>The glyph manager\<close>

subsection \<open>Glyphs\<close>

text \<open>
  \<open>StyleGlyph\<close>, \<open>GlyphMetrics\<close> and the alpha image it carries. JavaScript numbers are
  rationals here: the manager only divides them by the texture scale (1 or 2), adds the two
  adjustment constants and tests them for zero (\<open>x || fallback\<close>).
\<close>

record GlyphMetrics =
  m_width :: rat
  m_height :: rat
  m_left :: rat
  m_top :: rat
  m_advance :: rat
  isDoubleResolution :: bool

record AlphaImage =
  img_width :: rat
  img_height :: rat
  img_data :: "8 word list"

record StyleGlyph =
  glyph_id :: jsstring
  bitmap :: AlphaImage
  metrics :: GlyphMetrics

text \<open>
  \<open>entries\<close>, \<open>glyphs\<close> and the response of a range load are plain objects used as
  dictionaries, and a plain object inherits the properties of \<open>Object.prototype\<close>: reading
  a key that the object does not own gives the inherited value (a function, or
  \<open>Object.prototype\<close> itself for \<open>__proto__\<close>) when the key is one of the names below, and
  \<open>undefined\<close> otherwise. None of the names is enumerable.
\<close>

definition ascii :: "string \<Rightarrow> jsstring" where
  "ascii s = map (\<lambda>c. of_nat (of_char c)) s"

definition objectPrototypeKeys :: "jsstring list" where
  "objectPrototypeKeys = map ascii
     [''constructor'', ''__defineGetter__'', ''__defineSetter__'', ''hasOwnProperty'',
      ''__lookupGetter__'', ''__lookupSetter__'', ''isPrototypeOf'', ''propertyIsEnumerable'',
      ''toString'', ''valueOf'', ''__proto__'', ''toLocaleString'']"

definition inheritedKey :: "jsstring \<Rightarrow> bool" where
  "inheritedKey k = (k \<in> set objectPrototypeKeys)"

text \<open>What reading a key of \<open>glyphs\<close> or of a response gives: a \<open>StyleGlyph\<close>, \<open>null\<close>,
  \<open>undefined\<close>, or a value inherited from \<open>Object.prototype\<close>.\<close>

datatype glyphval = Undefined | Null | Glyph StyleGlyph | Inherited

text \<open>
  The own properties of \<open>glyphs\<close> and of a response: a key that is there holds a glyph or
  \<open>null\<close> (\<open>Some None\<close>). Assigning to a key makes it an own property; only an assignment
  to \<open>__proto__\<close> would not, and a response is taken to have no own key of that name.
\<close>

type_synonym glyphmap = "jsstring \<rightharpoonup> StyleGlyph option"

definition readGlyph :: "glyphmap \<Rightarrow> jsstring \<Rightarrow> glyphval" where
  "readGlyph m k =
     (case m k of
        None \<Rightarrow> if inheritedKey k then Inherited else Undefined
      | Some None \<Rightarrow> Null
      | Some (Some g) \<Rightarrow> Glyph g)"

subsection \<open>The local synthesizer as the manager sees it\<close>

text \<open>
  The options a \<open>TinySDF\<close> is constructed with (\<open>fontStyle\<close> keeps its default), and the
  object that \<open>draw\<close> returns. \<open>GlyphManager.TinySDF\<close> is a static property that can be
  replaced, and the class in the source draws through a canvas: the manager's functions
  take \<open>draw\<close> as a parameter.
\<close>

record TinySDF =
  fontSize :: nat
  buffer :: nat
  radius :: nat
  cutoff :: rat
  fontFamily :: jsstring
  fontWeight :: string

record DrawnGlyph =
  d_data :: "8 word list"
  d_width :: rat
  d_height :: rat
  glyphWidth :: rat
  glyphHeight :: rat
  glyphTop :: rat
  glyphLeft :: rat
  glyphAdvance :: rat

type_synonym drawfun = "TinySDF \<Rightarrow> jsstring \<Rightarrow> DrawnGlyph"

subsection \<open>Entries and the manager's state\<close>

text \<open>
  An entry of \<open>entries[stack]\<close>. A promise is named by its handle: the index of the
  \<open>loadGlyphRange\<close> call that returned it. \<open>ranges\<close> only ever receives \<open>true\<close>. The keys
  of \<open>requests\<close> and \<open>ranges\<close> are range numbers, and no number names an inherited
  property.
\<close>

record Entry =
  glyphs :: glyphmap
  requests :: "nat \<rightharpoonup> nat"
  ranges :: "nat \<rightharpoonup> bool"
  tinySDF1 :: "TinySDF option"
  tinySDF2 :: "TinySDF option"

definition newEntry :: Entry where
  "newEntry = \<lparr>glyphs = Map.empty, requests = Map.empty, ranges = Map.empty,
     tinySDF1 = None, tinySDF2 = None\<rparr>"

datatype promise = Pending | Fulfilled glyphmap | Rejected

text \<open>
  The errors of a lookup: \<open>RangeOverflowError\<close> is \<open>Error('glyphs > 65535 not supported')\<close>,
  \<open>ConfigurationError\<close> is \<open>Error('glyphsUrl is not set')\<close>, \<open>SourceFetchError\<close> is the
  rejection of the awaited range request, and \<open>TypeError\<close> is what reading a property of
  \<open>undefined\<close> throws.
\<close>

datatype error = RangeOverflowError | ConfigurationError | SourceFetchError | TypeError

text \<open>
  What a call of \<open>_getAndCacheGlyphsPromise\<close> has done when it gives up control: it has
  returned a glyph value, it has thrown, or it is suspended at
  \<open>await entry.requests[range]\<close>, with its local variable \<open>range\<close> and the handle of
  the promise it awaits.
\<close>

datatype outcome = Return glyphval | Throw error | Await nat nat

text \<open>
  The state: the manager's fields, and around them the promises that \<open>loadGlyphRange\<close>
  has returned (by handle), the arguments of every \<open>loadGlyphRange\<close> call so far (call
  number \<open>h\<close> returned promise \<open>h\<close>), the suspended calls (stack, id, range, awaited
  handle) and the finished calls with their outcome.
\<close>

record State =
  localIdeographFontFamily :: "jsstring option"
  url :: "jsstring option"
  entries :: "jsstring \<rightharpoonup> Entry"
  promises :: "promise list"
  calls :: "(jsstring \<times> nat \<times> jsstring) list"
  waiting :: "(jsstring \<times> jsstring \<times> nat \<times> nat) list"
  finished :: "(jsstring \<times> jsstring \<times> outcome) list"

text \<open>\<open>new GlyphManager(requestManager, localIdeographFontFamily)\<close>: no entries, and
  \<open>url\<close> is \<open>undefined\<close> until \<open>setURL\<close> is called.\<close>

definition newGlyphManager :: "jsstring option \<Rightarrow> State" where
  "newGlyphManager family = \<lparr>localIdeographFontFamily = family, url = None, entries = Map.empty,
     promises = [], calls = [], waiting = [], finished = []\<rparr>"

text \<open>A string or \<open>false\<close>/\<open>null\<close>/\<open>undefined\<close> used as a condition: only a non-empty
  string is truthy.\<close>

definition truthy :: "jsstring option \<Rightarrow> bool" where
  "truthy x = (case x of None \<Rightarrow> False | Some s \<Rightarrow> s \<noteq> [])"

subsection \<open>Strings in the manager\<close>

text \<open>\<open>String.prototype.trim\<close> removes white space and line terminators at both ends.\<close>

definition isWhiteSpace :: "16 word \<Rightarrow> bool" where
  "isWhiteSpace u = ((0x0009 \<le> u \<and> u \<le> 0x000D) \<or> u = 0x0020 \<or> u = 0x00A0 \<or> u = 0x1680
     \<or> (0x2000 \<le> u \<and> u \<le> 0x200A) \<or> u = 0x2028 \<or> u = 0x2029 \<or> u = 0x202F \<or> u = 0x205F
     \<or> u = 0x3000 \<or> u = 0xFEFF)"

definition trim :: "jsstring \<Rightarrow> jsstring" where
  "trim s = rev (dropWhile isWhiteSpace (rev (dropWhile isWhiteSpace s)))"

text \<open>\<open>/pat/i.test(s)\<close> for a pattern of ASCII letters, given in upper case: without the
  \<open>u\<close> flag a code unit above 127 never matches an ASCII letter.\<close>

definition upperUnit :: "16 word \<Rightarrow> 16 word" where
  "upperUnit u = (if 0x61 \<le> u \<and> u \<le> 0x7A then u - 0x20 else u)"

fun testIgnoreCase :: "jsstring \<Rightarrow> jsstring \<Rightarrow> bool" where
  "testIgnoreCase pat [] = (pat = [])"
| "testIgnoreCase pat (u # us) = (prefix pat (map upperUnit (u # us)) \<or> testIgnoreCase pat us)"

subsection \<open>Unicode blocks\<close>

text \<open>The entries of \<open>unicodeBlockLookup\<close> that the manager uses. The argument is
  \<open>id.codePointAt(0)\<close>; every comparison with \<open>undefined\<close> is false.\<close>

definition inBlock :: "nat \<Rightarrow> nat \<Rightarrow> nat option \<Rightarrow> bool" where
  "inBlock lo hi code = (case code of None \<Rightarrow> False | Some c \<Rightarrow> c \<ge> lo \<and> c \<le> hi)"

definition block_Devanagari :: "nat option \<Rightarrow> bool" where
  "block_Devanagari = inBlock 0x0900 0x097F"

definition block_Bengali :: "nat option \<Rightarrow> bool" where
  "block_Bengali = inBlock 0x0980 0x09FF"

definition block_Gujarati :: "nat option \<Rightarrow> bool" where
  "block_Gujarati = inBlock 0x0A80 0x0AFF"

definition block_Tamil :: "nat option \<Rightarrow> bool" where
  "block_Tamil = inBlock 0x0B80 0x0BFF"

definition block_Telugu :: "nat option \<Rightarrow> bool" where
  "block_Telugu = inBlock 0x0C00 0x0C7F"

definition block_Tibetan :: "nat option \<Rightarrow> bool" where
  "block_Tibetan = inBlock 0x0F00 0x0FFF"

definition block_Myanmar :: "nat option \<Rightarrow> bool" where
  "block_Myanmar = inBlock 0x1000 0x109F"

definition block_Khmer :: "nat option \<Rightarrow> bool" where
  "block_Khmer = inBlock 0x1780 0x17FF"

definition block_CJK_Unified_Ideographs :: "nat option \<Rightarrow> bool" where
  "block_CJK_Unified_Ideographs = inBlock 0x4E00 0x9FFF"

definition block_Hangul_Syllables :: "nat option \<Rightarrow> bool" where
  "block_Hangul_Syllables = inBlock 0xAC00 0xD7AF"

definition block_Hiragana :: "nat option \<Rightarrow> bool" where
  "block_Hiragana = inBlock 0x3040 0x309F"

definition block_Katakana :: "nat option \<Rightarrow> bool" where
  "block_Katakana = inBlock 0x30A0 0x30FF"

definition doesSegmentSupportLocalGlyph :: "jsstring option \<Rightarrow> jsstring \<Rightarrow> bool" where
  "doesSegmentSupportLocalGlyph family gid =
     (let code = codePointAt0 gid in
      truthy family \<and>
      (block_Devanagari code \<or> block_Bengali code \<or> block_Gujarati code \<or> block_Tamil code
       \<or> block_Telugu code \<or> block_Tibetan code \<or> block_Myanmar code \<or> block_Khmer code
       \<or> block_CJK_Unified_Ideographs code \<or> block_Hangul_Syllables code
       \<or> block_Hiragana code \<or> block_Katakana code))"

definition doesCharShouldHaveDoubleResolution :: "jsstring \<Rightarrow> bool" where
  "doesCharShouldHaveDoubleResolution gid =
     (let code = codePointAt0 gid in
      block_CJK_Unified_Ideographs code \<or> block_Hangul_Syllables code
      \<or> block_Hiragana code \<or> block_Katakana code)"

subsection \<open>Local synthesis\<close>

text \<open>\<open>x || d\<close> on numbers.\<close>

definition orElse :: "rat \<Rightarrow> rat \<Rightarrow> rat" where
  "orElse x d = (if x = 0 then d else x)"

definition stackFontWeight :: "jsstring \<Rightarrow> string" where
  "stackFontWeight stack =
     (if testIgnoreCase [0x42, 0x4F, 0x4C, 0x44] stack then ''900''
      else if testIgnoreCase [0x4D, 0x45, 0x44, 0x49, 0x55, 0x4D] stack then ''500''
      else if testIgnoreCase [0x4C, 0x49, 0x47, 0x48, 0x54] stack then ''200''
      else ''400'')"

text \<open>
  \<open>_tinySDF(entry, stack, id)\<close>: the glyph (\<open>None\<close> is the \<open>undefined\<close> of the early
  return) and the entry, whose \<open>tinySDF1\<close> or \<open>tinySDF2\<close> is filled when it was empty.
\<close>

definition tinySDF ::
  "drawfun \<Rightarrow> jsstring option \<Rightarrow> Entry \<Rightarrow> jsstring \<Rightarrow> jsstring \<Rightarrow> StyleGlyph option \<times> Entry" where
  "tinySDF draw family entry stack gid =
     (case family of
        None \<Rightarrow> (None, entry)
      | Some fam \<Rightarrow>
          if fam = [] then (None, entry)
          else
            let isDouble = doesCharShouldHaveDoubleResolution gid;
                textureScale = (if isDouble then 2 else 1 :: nat);
                existing = (if isDouble then tinySDF2 entry else tinySDF1 entry);
                sdf = (case existing of
                         Some t \<Rightarrow> t
                       | None \<Rightarrow> \<lparr>fontSize = 24 * textureScale, buffer = 8 * textureScale,
                                   radius = 8 * textureScale, cutoff = 1 / 4, fontFamily = fam,
                                   fontWeight = stackFontWeight stack\<rparr>);
                entry' = (case existing of
                            Some t \<Rightarrow> entry
                          | None \<Rightarrow> if isDouble then entry\<lparr>tinySDF2 := Some sdf\<rparr>
                                    else entry\<lparr>tinySDF1 := Some sdf\<rparr>);
                char = draw sdf gid;
                scale = of_nat textureScale
            in (Some \<lparr>glyph_id = gid,
                       bitmap = \<lparr>img_width = orElse (d_width char) (30 * scale),
                                  img_height = orElse (d_height char) (30 * scale),
                                  img_data = d_data char\<rparr>,
                       metrics = \<lparr>m_width = orElse (glyphWidth char / scale) 24,
                                   m_height = orElse (glyphHeight char / scale) 24,
                                   m_left = orElse (glyphLeft char / scale + 1 / 2) 0,
                                   m_top = orElse (glyphTop char / scale - 55 / 2) (- 8),
                                   m_advance = orElse (glyphAdvance char / scale) 24,
                                   isDoubleResolution = isDouble\<rparr>\<rparr>,
                entry'))"

subsection \<open>Looking a glyph up\<close>

text \<open>The entry that \<open>entries\<close> owns for a stack; for a stack without one, the entry that
  the first lookup of the stack creates.\<close>

definition entryOf :: "State \<Rightarrow> jsstring \<Rightarrow> Entry" where
  "entryOf s stack = (case entries s stack of None \<Rightarrow> newEntry | Some e \<Rightarrow> e)"

definition putEntry :: "State \<Rightarrow> jsstring \<Rightarrow> Entry \<Rightarrow> State" where
  "putEntry s stack e = s\<lparr>entries := (entries s)(stack \<mapsto> e)\<rparr>"

text \<open>
  \<open>_getAndCacheGlyphsPromise(stack, id)\<close> from its start to its first \<open>await\<close>, or to
  its end when it returns or throws before: the new state and what the call has done.
  \<open>remoteStart\<close> is the part after the test \<open>glyph !== undefined\<close>. A new range request
  appends its promise (pending) and the arguments of the \<open>loadGlyphRange\<close> call.

  \<open>this.entries[stack]\<close> is the own entry of the stack when there is one. Otherwise, for a
  stack named like a property of \<open>Object.prototype\<close>, it is the inherited value: that is
  truthy, so no entry is created, and it has no \<open>glyphs\<close>, so \<open>entry.glyphs[id]\<close> throws
  a \<open>TypeError\<close>. For every other stack the entry is created.
\<close>

definition remoteStart :: "State \<Rightarrow> jsstring \<Rightarrow> jsstring \<Rightarrow> glyphval \<Rightarrow> State \<times> outcome" where
  "remoteStart s stack gid glyph =
     (let entry = entryOf s stack in
      case codePointAt0 gid of
        None \<Rightarrow> (s, Return Null)
      | Some codePoint \<Rightarrow>
          let rng = codePoint div 256 in
          if rng * 256 > 65535 then (s, Throw RangeOverflowError)
          else if ranges entry rng = Some True then (s, Return glyph)
          else if \<not> truthy (url s) then (s, Throw ConfigurationError)
          else
            (case requests entry rng of
               Some h \<Rightarrow> (s, Await rng h)
             | None \<Rightarrow>
                 let h = length (promises s);
                     u = (case url s of None \<Rightarrow> [] | Some u \<Rightarrow> u)
                 in ((putEntry s stack (entry\<lparr>requests := (requests entry)(rng \<mapsto> h)\<rparr>))
                       \<lparr>promises := promises s @ [Pending], calls := calls s @ [(stack, rng, u)]\<rparr>,
                     Await rng h)))"

definition getAndCacheGlyphsStart ::
  "drawfun \<Rightarrow> State \<Rightarrow> jsstring \<Rightarrow> jsstring \<Rightarrow> State \<times> outcome" where
  "getAndCacheGlyphsStart draw s0 stack gid =
     (if entries s0 stack = None \<and> inheritedKey stack then (s0, Throw TypeError)
      else
        let entry = entryOf s0 stack;
            s = putEntry s0 stack entry;
            glyph = readGlyph (glyphs entry) gid
        in
        if trim gid = [] then (s, Return glyph)
        else
          let synth = (if doesSegmentSupportLocalGlyph (localIdeographFontFamily s0) gid
                       then tinySDF draw (localIdeographFontFamily s0) entry stack gid
                       else (None, entry))
          in case synth of
            (Some g, entry') \<Rightarrow>
              (putEntry s stack (entry'\<lparr>glyphs := (glyphs entry')(gid \<mapsto> Some g)\<rparr>), Return (Glyph g))
          | (None, entry') \<Rightarrow>
              if glyph \<noteq> Undefined then (putEntry s stack entry', Return glyph)
              else remoteStart (putEntry s stack entry') stack gid glyph)"

text \<open>
  The rest of the call, once the awaited promise is settled: a rejection is thrown on; a
  response is copied into \<open>glyphs\<close> key by key, the range is marked, and the call returns
  \<open>response[id] || null\<close>. The variable \<open>entry\<close> of the call still is the entry of its
  stack: nothing removes or replaces an entry. \<open>None\<close>: the promise is still pending (or
  the call is not one that a run can have suspended).
\<close>

definition getAndCacheGlyphsResume ::
  "State \<Rightarrow> jsstring \<times> jsstring \<times> nat \<times> nat \<Rightarrow> (State \<times> outcome) option" where
  "getAndCacheGlyphsResume s w =
     (case w of (stack, gid, rng, h) \<Rightarrow>
        if h < length (promises s) then
          (case promises s ! h of
             Pending \<Rightarrow> None
           | Rejected \<Rightarrow> Some (s, Throw SourceFetchError)
           | Fulfilled response \<Rightarrow>
               (case entries s stack of
                  None \<Rightarrow> None
                | Some entry \<Rightarrow>
                    let entry' = entry\<lparr>glyphs := glyphs entry ++ response,
                                       ranges := (ranges entry)(rng \<mapsto> True)\<rparr>
                    in Some (putEntry s stack entry',
                             Return (case readGlyph response gid of
                                       Glyph g \<Rightarrow> Glyph g
                                     | Inherited \<Rightarrow> Inherited
                                     | _ \<Rightarrow> Null))))
        else None)"

subsection \<open>Runs of the manager\<close>

text \<open>
  One thread runs the manager; control changes hands only at an \<open>await\<close>. A run is a
  sequence of events: a call of \<open>_getAndCacheGlyphsPromise\<close> (up to its first \<open>await\<close>),
  a call of \<open>setURL\<close>, the range loader settling one of its pending promises, and a
  suspended call going on after its promise is settled. An event that cannot happen (a
  promise that is not pending, a call that is not there or whose promise is pending)
  leaves the state as it is. Suspended calls may go on in any order.
\<close>

datatype event =
    Lookup jsstring jsstring
  | SetURL "jsstring option"
  | Fulfil nat glyphmap
  | Reject nat
  | Resume nat

definition step :: "drawfun \<Rightarrow> State \<Rightarrow> event \<Rightarrow> State" where
  "step draw s ev =
     (case ev of
        Lookup stack gid \<Rightarrow>
          (case getAndCacheGlyphsStart draw s stack gid of
             (s', Await rng h) \<Rightarrow> s'\<lparr>waiting := waiting s' @ [(stack, gid, rng, h)]\<rparr>
           | (s', out) \<Rightarrow> s'\<lparr>finished := finished s' @ [(stack, gid, out)]\<rparr>)
      | SetURL u \<Rightarrow> s\<lparr>url := u\<rparr>
      | Fulfil h response \<Rightarrow>
          if h < length (promises s) \<and> promises s ! h = Pending
          then s\<lparr>promises := (promises s)[h := Fulfilled response]\<rparr> else s
      | Reject h \<Rightarrow>
          if h < length (promises s) \<and> promises s ! h = Pending
          then s\<lparr>promises := (promises s)[h := Rejected]\<rparr> else s
      | Resume k \<Rightarrow>
          if k < length (waiting s) then
            (case getAndCacheGlyphsResume s (waiting s ! k) of
               None \<Rightarrow> s
             | Some (s', out) \<Rightarrow>
                 s'\<lparr>waiting := take k (waiting s) @ drop (Suc k) (waiting s),
                    finished := finished s' @ [(fst (waiting s ! k), fst (snd (waiting s ! k)), out)]\<rparr>)
          else s)"

fun run :: "drawfun \<Rightarrow> State \<Rightarrow> event list \<Rightarrow> State" where
  "run draw s [] = s"
| "run draw s (ev # evs) = run draw (step draw s ev) evs"

text \<open>The calls that \<open>getGlyphs\<close> makes before it awaits them all: one per stack and id,
  in the order of the request.\<close>

definition getGlyphsLookups :: "(jsstring \<times> jsstring list) list \<Rightarrow> event list" where
  "getGlyphsLookups request = concat (map (\<lambda>(stack, ids). map (Lookup stack) ids) request)"

text \<open>The number of \<open>loadGlyphRange\<close> calls made so far for a stack and a range.\<close>

definition fetchCount :: "State \<Rightarrow> jsstring \<Rightarrow> nat \<Rightarrow> nat" where
  "fetchCount s stack rng =
     length (filter (\<lambda>(st, rg, u). st = stack \<and> rg = rng) (calls s))"

subsection \<open>Consistency of the bookkeeping\<close>

text \<open>The range of an id: \<open>Math.floor(id.codePointAt(0) / 256)\<close>; none for the empty string.\<close>

definition rangeOf :: "jsstring \<Rightarrow> nat option" where
  "rangeOf gid = map_option (\<lambda>codePoint. codePoint div 256) (codePointAt0 gid)"

text \<open>
  What every run keeps true: each promise belongs to one \<open>loadGlyphRange\<close> call; a handle
  in \<open>requests\<close> of a stack at a range is the call made for that stack and range; there is
  one such call when \<open>requests\<close> has the range and none otherwise; a suspended call awaits
  the handle that \<open>requests\<close> holds for its stack and range, the range of its id; and a
  range that is marked in \<open>ranges\<close> has a fulfilled request whose response keys are all in
  \<open>glyphs\<close>.
\<close>

definition consistent :: "State \<Rightarrow> bool" where
  "consistent s =
     (length (promises s) = length (calls s)
      \<and> (\<forall>st r h. requests (entryOf s st) r = Some h \<longrightarrow>
            h < length (calls s) \<and> fst (calls s ! h) = st \<and> fst (snd (calls s ! h)) = r)
      \<and> (\<forall>st r. fetchCount s st r = (if requests (entryOf s st) r = None then 0 else 1))
      \<and> (\<forall>w \<in> set (waiting s). case w of (st, gid, r, h) \<Rightarrow>
            requests (entryOf s st) r = Some h \<and> rangeOf gid = Some r)
      \<and> (\<forall>st r. ranges (entryOf s st) r = Some True \<longrightarrow>
            (\<exists>h resp. requests (entryOf s st) r = Some h \<and> promises s ! h = Fulfilled resp
               \<and> dom resp \<subseteq> dom (glyphs (entryOf s st)))))"

text \<open>A \<open>draw\<close> that returns an empty glyph, for the runs that are evaluated below.\<close>

definition blankDraw :: drawfun where
  "blankDraw t gid = \<lparr>d_data = [], d_width = 0, d_height = 0, glyphWidth = 0, glyphHeight = 0,
     glyphTop = 0, glyphLeft = 0, glyphAdvance = 0\<rparr>"


text \<open>A \<open>draw\<close> whose result depends on the \<open>TinySDF\<close> it is called on and on the id.\<close>

definition sampleDraw :: drawfun where
  "sampleDraw t gid = \<lparr>d_data = [of_nat (fontSize t), of_nat (length gid)], d_width = 2, d_height = 1,
     glyphWidth = 20, glyphHeight = 22, glyphTop = 30, glyphLeft = 0, glyphAdvance = 21\<rparr>"

text \<open>A glyph for the responses of the runs that are evaluated below.\<close>

definition sampleGlyph :: "jsstring \<Rightarrow> StyleGlyph" where
  "sampleGlyph gid = \<lparr>glyph_id = gid,
     bitmap = \<lparr>img_width = 1, img_height = 1, img_data = [0xFF]\<rparr>,
     metrics = \<lparr>m_width = 1, m_height = 1, m_left = 0, m_top = 0, m_advance = 1,
       isDoubleResolution = False\<rparr>\<rparr>"
section \<open>Properties of the segmenter\<close>

lemma mergeLoop_nonempty: "mergeLoop xs out clust \<noteq> []"
  by (induction xs out clust rule: mergeLoop.induct) simp_all

lemma segment_empty_string: "segment [] = [[]]"
  by (simp add: segment_def makeGraphemeClusters_def makeTokens_def reinstate_def)

text \<open>
  C10: \<open>segment\<close> never returns an empty list, and the empty string is segmented into
  the one-element list that holds the empty string.
\<close>

theorem segment_never_empty_list: "segment S \<noteq> [] \<and> segment [] = [[]]"
  by (simp add: segment_empty_string) (simp add: segment_def mergeLoop_nonempty)

lemmas table_defs = EXTEND_SET_has_def SPACING_MARK_SET_has_def CONTROL_SET_has_def
  PREPEND_SET_has_def table_has_def in_ranges_def
  EXTEND_RANGES_def SPACING_MARK_RANGES_def CONTROL_RANGES_def PREPEND_RANGES_def

subsection \<open>Losslessness of the two loops\<close>

lemma concat_spread: "concat (spread s) = s"
  by (induction s rule: spread.induct) simp_all

lemma spread_elems: "x \<in> set (spread s) \<Longrightarrow> oneCodePoint x"
  by (induction s rule: spread.induct) (auto split: if_splits)

lemma clusterLoop_concat:
  "clusterLoop cs i out clust pf = (out', clust') \<Longrightarrow> (i = 0 \<longrightarrow> clust = []) \<Longrightarrow>
     concat out' @ clust' = concat out @ clust @ concat cs"
proof (induction cs arbitrary: i out clust pf)
  case Nil
  then show ?case by simp
next
  case (Cons c cs)
  from Cons.prems show ?case
    by (auto split: if_splits dest!: Cons.IH)
qed

lemma concat_makeGraphemeClusters: "concat (makeGraphemeClusters s) = s"
proof -
  obtain out clust where r: "clusterLoop (spread s) 0 [] [] False = (out, clust)"
    by (cases "clusterLoop (spread s) 0 [] [] False")
  from clusterLoop_concat [OF r] show ?thesis
    by (simp add: makeGraphemeClusters_def r concat_spread)
qed

lemma mergeLoop_concat:
  "xs \<noteq> [] \<Longrightarrow> concat (mergeLoop xs out clust) = concat out @ clust @ concat xs"
  by (induction xs out clust rule: mergeLoop.induct) simp_all

lemma makeGraphemeClusters_nonempty: "makeGraphemeClusters s \<noteq> []"
  by (simp add: makeGraphemeClusters_def split: prod.splits)

subsection \<open>Replacement\<close>

lemma replaceAll_single:
  "replaceAll [u] rep s = concat (map (\<lambda>x. if x = u then rep else [x]) s)"
  by (induction s) auto

lemma expand_absent: "u \<notin> set s \<Longrightarrow> concat (map (\<lambda>x. if x = u then rep else [x]) s) = s"
  by (induction s) auto

lemma replaceAll_single_append:
  "replaceAll [u] rep (a @ b) = replaceAll [u] rep a @ replaceAll [u] rep b"
  by (simp add: replaceAll_single)

lemma replaceAll_single_absent: "u \<notin> set s \<Longrightarrow> replaceAll [u] rep s = s"
  by (simp add: replaceAll_single expand_absent)

lemma replaceAll_single_commute:
  "a \<noteq> b \<Longrightarrow> a \<notin> set rb \<Longrightarrow> b \<notin> set ra \<Longrightarrow>
     replaceAll [a] ra (replaceAll [b] rb s) = replaceAll [b] rb (replaceAll [a] ra s)"
  unfolding replaceAll_single
  by (induction s) (auto simp: expand_absent)

lemma set_replaceAll: "set (replaceAll pat rep s) \<subseteq> set s \<union> set rep"
proof (induction pat rep s rule: replaceAll.induct)
  case (1 pat rep)
  then show ?case by simp
next
  case (2 pat rep u us)
  show ?case
  proof (cases "pat \<noteq> [] \<and> prefix pat (u # us)")
    case True
    with 2 have "set (replaceAll pat rep (drop (length pat) (u # us)))
        \<subseteq> set (drop (length pat) (u # us)) \<union> set rep" by blast
    moreover have "set (drop (length pat) (u # us)) \<subseteq> set (u # us)" by (rule set_drop_subset)
    ultimately show ?thesis using True by auto
  next
    case False
    with 2 show ?thesis by auto
  qed
qed

lemma replaceAll_undo:
  "pat \<noteq> [] \<Longrightarrow> u \<notin> set s \<Longrightarrow> replaceAll [u] pat (replaceAll pat [u] s) = s"
proof (induction pat "[u]" s rule: replaceAll.induct)
  case (1 pat)
  then show ?case by simp
next
  case (2 pat x xs)
  show ?case
  proof (cases "prefix pat (x # xs)")
    case True
    then obtain rest where rest: "x # xs = pat @ rest" by (auto simp: prefix_def)
    then have d: "drop (length pat) (x # xs) = rest" by (metis append_eq_conv_conj)
    have "u \<notin> set rest" using 2(4) rest by (metis Un_iff set_append)
    with 2(1) [OF _ 2(3)] True 2(3) d have ih: "replaceAll [u] pat (replaceAll pat [u] rest) = rest"
      by simp
    have "replaceAll pat [u] (x # xs) = u # replaceAll pat [u] rest"
      using True 2(3) d by simp
    then show ?thesis using ih rest by (simp del: replaceAll.simps(2) add: replaceAll_single)
  next
    case False
    with 2 show ?thesis by auto
  qed
qed

subsection \<open>The Tamil patterns never match inside a cluster\<close>

lemma nBase_append [simp]: "nBase (a @ b) = nBase a + nBase b"
  by (simp add: nBase_def)

lemma nBase_Nil [simp]: "nBase [] = 0"
  by (simp add: nBase_def)

lemma ordinary_tokenBase: "tokenBase u \<Longrightarrow> ordinary [u]"
  unfolding tokenBase_def
  by (elim disjE) (simp_all add: ordinary_def table_defs)

lemma surrogate_not_tokenBase:
  "isHighSurrogate u \<or> isLowSurrogate u \<Longrightarrow> \<not> tokenBase u"
  by (auto simp: isHighSurrogate_def isLowSurrogate_def tokenBase_def)

lemma codepoint_nBase_le: "oneCodePoint x \<Longrightarrow> nBase x \<le> 1"
  using surrogate_not_tokenBase by (cases x rule: oneCodePoint.cases) (auto simp: nBase_def)

lemma codepoint_nBase_mark: "oneCodePoint x \<Longrightarrow> \<not> ordinary x \<Longrightarrow> nBase x = 0"
  using ordinary_tokenBase surrogate_not_tokenBase
  by (cases x rule: oneCodePoint.cases) (auto simp: nBase_def)

lemma clusterLoop_nBase:
  assumes "clusterLoop cs i out clust pf = (out', clust')"
    and "\<forall>x \<in> set cs. oneCodePoint x"
    and "\<forall>x \<in> set out. nBase x \<le> 1"
    and "nBase clust \<le> 1" and "pf \<longrightarrow> nBase clust = 0"
  shows "(\<forall>x \<in> set out'. nBase x \<le> 1) \<and> nBase clust' \<le> 1"
  using assms
proof (induction cs arbitrary: i out clust pf)
  case Nil
  then show ?case by simp
next
  case (Cons c cs)
  have cp: "oneCodePoint c" using Cons.prems(2) by simp
  have rest: "\<forall>x \<in> set cs. oneCodePoint x" using Cons.prems(2) by simp
  show ?case
  proof (cases "ordinary c")
    case True
    then have o: "\<not> EXTEND_SET_has c" "\<not> SPACING_MARK_SET_has c" "\<not> CONTROL_SET_has c"
      "\<not> PREPEND_SET_has c" by (simp_all add: ordinary_def)
    have c1: "nBase c \<le> 1" using cp by (rule codepoint_nBase_le)
    show ?thesis
    proof (cases pf)
      case True
      with o Cons.prems(1)
      have call: "clusterLoop cs (i + 1) out (clust @ c) False = (out', clust')"
        by simp
      have nb: "nBase (clust @ c) \<le> 1" using True Cons.prems(5) c1 by simp
      show ?thesis by (rule Cons.IH [OF call rest Cons.prems(3) nb]) simp
    next
      case False
      with o Cons.prems(1)
      have call: "clusterLoop cs (i + 1) (if i > 0 then out @ [clust] else out) c False
          = (out', clust')"
        by simp
      have outs: "\<forall>x \<in> set (if i > 0 then out @ [clust] else out). nBase x \<le> 1"
        using Cons.prems(3,4) by simp
      show ?thesis by (rule Cons.IH [OF call rest outs c1]) simp
    qed
  next
    case False
    have c0: "nBase c = 0" using cp False by (rule codepoint_nBase_mark)
    show ?thesis
    proof (cases "EXTEND_SET_has c \<or> SPACING_MARK_SET_has c \<or> CONTROL_SET_has c")
      case True
      with Cons.prems(1)
      have call: "clusterLoop cs (i + 1) out (clust @ c) pf = (out', clust')"
        by (simp split: if_splits)
      have nb: "nBase (clust @ c) \<le> 1" and nz: "pf \<longrightarrow> nBase (clust @ c) = 0"
        using c0 Cons.prems(4,5) by simp_all
      show ?thesis by (rule Cons.IH [OF call rest Cons.prems(3) nb nz])
    next
      case nomark: False
      with False have p: "PREPEND_SET_has c" by (simp add: ordinary_def)
      with nomark Cons.prems(1)
      have call: "clusterLoop cs (i + 1) (out @ [clust]) c True = (out', clust')"
        by simp
      have outs: "\<forall>x \<in> set (out @ [clust]). nBase x \<le> 1" using Cons.prems(3,4) by simp
      have nb: "nBase c \<le> 1" and nz: "True \<longrightarrow> nBase c = 0" using c0 by simp_all
      show ?thesis by (rule Cons.IH [OF call rest outs nb nz])
    qed
  qed
qed

lemma cluster_nBase: "c \<in> set (makeGraphemeClusters s) \<Longrightarrow> nBase c \<le> 1"
proof -
  assume c: "c \<in> set (makeGraphemeClusters s)"
  obtain out clust where r: "clusterLoop (spread s) 0 [] [] False = (out, clust)"
    by (cases "clusterLoop (spread s) 0 [] [] False")
  have "(\<forall>x \<in> set out. nBase x \<le> 1) \<and> nBase clust \<le> 1"
    by (rule clusterLoop_nBase [OF r]) (auto dest: spread_elems)
  with c r show ?thesis by (auto simp: makeGraphemeClusters_def)
qed

lemma nBase_replaceAll:
  "nBase pat = 0 \<Longrightarrow> nBase rep = 0 \<Longrightarrow> nBase (replaceAll pat rep s) = nBase s"
proof (induction pat rep s rule: replaceAll.induct)
  case (1 pat rep)
  then show ?case by simp
next
  case (2 pat rep x xs)
  show ?case
  proof (cases "pat \<noteq> [] \<and> prefix pat (x # xs)")
    case True
    then obtain rest where rest: "x # xs = pat @ rest" by (auto simp: prefix_def)
    then have d: "drop (length pat) (x # xs) = rest" by (metis append_eq_conv_conj)
    have "nBase (replaceAll pat rep rest) = nBase rest" using 2 True d by simp
    moreover have "replaceAll pat rep (x # xs) = rep @ replaceAll pat rep rest"
      using True d by simp
    moreover have "nBase (x # xs) = nBase rest" using rest 2(3) by (metis nBase_append add_0)
    ultimately show ?thesis using 2(4) by simp
  next
    case False
    with 2 have "nBase (replaceAll pat rep xs) = nBase xs" by blast
    moreover have "replaceAll pat rep (x # xs) = x # replaceAll pat rep xs"
      using False by auto
    ultimately show ?thesis by (simp add: nBase_def)
  qed
qed

lemma replaceAll_no_match:
  "2 \<le> nBase pat \<Longrightarrow> nBase s \<le> 1 \<Longrightarrow> replaceAll pat rep s = s"
proof (induction pat rep s rule: replaceAll.induct)
  case (1 pat rep)
  then show ?case by simp
next
  case (2 pat rep x xs)
  have np: "\<not> prefix pat (x # xs)"
  proof
    assume "prefix pat (x # xs)"
    then obtain rest where "x # xs = pat @ rest" by (auto simp: prefix_def)
    then have "nBase (x # xs) = nBase pat + nBase rest" by (metis nBase_append)
    with 2(3,4) show False by simp
  qed
  have "nBase xs \<le> 1" using 2(4) by (simp add: nBase_def split: if_splits)
  with 2 np show ?case by simp
qed

subsection \<open>Round trip of the temporary tokens\<close>

lemma reinstate_append: "reinstate (a @ b) = reinstate a @ reinstate b"
  by (simp add: reinstate_def replaceAll_single_append)

lemma reinstate_concat: "reinstate (concat xs) = concat (map reinstate xs)"
proof (induction xs)
  case Nil
  show ?case by (simp add: reinstate_def)
next
  case (Cons a xs)
  then show ?case by (simp add: reinstate_append)
qed

lemma makeTokens_cluster:
  assumes "nBase c \<le> 1"
  shows "makeTokens c = replaceAll [0x200D, 0x0DCA] [0xE002] (replaceAll [0x0DCA, 0x200D] [0xE001] c)"
proof -
  let ?y = "replaceAll [0x200D, 0x0DCA] [0xE002] (replaceAll [0x0DCA, 0x200D] [0xE001] c)"
  have z: "nBase [0x0DCA, 0x200D] = 0" "nBase [0xE001] = 0" "nBase [0x200D, 0x0DCA] = 0"
    "nBase [0xE002] = 0"
    by (simp_all add: nBase_def tokenBase_def)
  have "nBase ?y = nBase c"
    by (simp only: nBase_replaceAll [OF z(3,4)] nBase_replaceAll [OF z(1,2)])
  with assms have y: "nBase ?y \<le> 1" by simp
  have p3: "2 \<le> nBase [0x0B95, 0x0BCD, 0x007C, 0x0BB7]"
    and p4: "2 \<le> nBase [0x0BB8, 0x0BCD, 0x007C, 0x0BB0, 0x0BC0]"
    and p5: "2 \<le> nBase [0x0BB6, 0x0BCD, 0x007C, 0x0BB0, 0x0BC0]"
    by (simp_all add: nBase_def tokenBase_def)
  show ?thesis
    unfolding makeTokens_def
    by (simp only: replaceAll_no_match [OF p3 y] replaceAll_no_match [OF p4 y]
        replaceAll_no_match [OF p5 y])
qed

lemma reinstate_makeTokens:
  assumes free: "\<forall>u \<in> set c. \<not> placeholder u" and nb: "nBase c \<le> 1"
  shows "reinstate (makeTokens c) = c"
proof -
  let ?y1 = "replaceAll [0x0DCA, 0x200D] [0xE001] c"
  let ?y2 = "replaceAll [0x200D, 0x0DCA] [0xE002] ?y1"
  have c: "0xE001 \<notin> set c" "0xE002 \<notin> set c" "0xE003 \<notin> set c" "0xE004 \<notin> set c"
    "0xE005 \<notin> set c"
    using free by (auto simp: placeholder_def)
  have "set ?y1 \<subseteq> set c \<union> set [0xE001]" by (rule set_replaceAll)
  with c(2) have y1: "0xE002 \<notin> set ?y1" by auto
  have "replaceAll [0xE002] [0x200D, 0x0DCA] (replaceAll [0xE001] [0x0DCA, 0x200D] ?y2)
      = replaceAll [0xE001] [0x0DCA, 0x200D] (replaceAll [0xE002] [0x200D, 0x0DCA] ?y2)"
    by (rule replaceAll_single_commute [symmetric]) simp_all
  also have "replaceAll [0xE002] [0x200D, 0x0DCA] ?y2 = ?y1"
    by (rule replaceAll_undo [OF _ y1]) simp
  also have "replaceAll [0xE001] [0x0DCA, 0x200D] ?y1 = c"
    by (rule replaceAll_undo [OF _ c(1)]) simp
  finally have "reinstate ?y2 = replaceAll [0xE005] [0x0BB6, 0x0BCD, 0x0BB0, 0x0BC0]
       (replaceAll [0xE004] [0x0BB8, 0x0BCD, 0x0BB0, 0x0BC0]
         (replaceAll [0xE003] [0x0B95, 0x0BCD, 0x0BB7] c))"
    by (simp only: reinstate_def)
  also have "\<dots> = c"
    by (simp only: replaceAll_single_absent [OF c(3)] replaceAll_single_absent [OF c(4)]
        replaceAll_single_absent [OF c(5)])
  finally show ?thesis by (simp only: makeTokens_cluster [OF nb])
qed

lemma concat_segment:
  "concat (segment S) = concat (map (\<lambda>c. reinstate (makeTokens c)) (makeGraphemeClusters S))"
proof -
  have ne: "map makeTokens (makeGraphemeClusters S) \<noteq> []"
    by (simp add: makeGraphemeClusters_nonempty)
  have "concat (segment S)
      = reinstate (concat (mergeLoop (map makeTokens (makeGraphemeClusters S)) [] []))"
    by (simp add: segment_def reinstate_concat)
  also have "\<dots> = reinstate (concat (map makeTokens (makeGraphemeClusters S)))"
    by (simp add: mergeLoop_concat [OF ne])
  finally show ?thesis by (simp add: reinstate_concat comp_def)
qed

text \<open>
  C1, as amended: for every string that contains none of the code units U+E001 to U+E005,
  the segments of \<open>segment\<close>, concatenated in order, are the string.
\<close>

theorem segment_lossless_without_placeholders:
  assumes "set S \<inter> {0xE001, 0xE002, 0xE003, 0xE004, 0xE005} = {}"
  shows "concat (segment S) = S"
proof -
  have "reinstate (makeTokens c) = c" if c: "c \<in> set (makeGraphemeClusters S)" for c
  proof (rule reinstate_makeTokens)
    have "set c \<subseteq> set (concat (makeGraphemeClusters S))" using c by auto
    then have "set c \<subseteq> set S" by (simp only: concat_makeGraphemeClusters)
    with assms show "\<forall>u \<in> set c. \<not> placeholder u" by (auto simp: placeholder_def)
    show "nBase c \<le> 1" using c by (rule cluster_nBase)
  qed
  then have "map (\<lambda>c. reinstate (makeTokens c)) (makeGraphemeClusters S) = makeGraphemeClusters S"
    by (simp add: map_idI)
  then show ?thesis by (simp only: concat_segment concat_makeGraphemeClusters)
qed

theorem segment_lossless_without_placeholders_witness:
  "set [0x0915, 0x094D, 0x0937 :: 16 word] \<inter> {0xE001, 0xE002, 0xE003, 0xE004, 0xE005} = {}
   \<and> concat (segment [0x0915, 0x094D, 0x0937]) = [0x0915, 0x094D, 0x0937]"
proof -
  have h: "set [0x0915, 0x094D, 0x0937 :: 16 word] \<inter> {0xE001, 0xE002, 0xE003, 0xE004, 0xE005} = {}"
    by simp
  from segment_lossless_without_placeholders [OF h] h show ?thesis by simp
qed

lemma ordinary_E003: "ordinary [0xE003]"
  by (simp add: ordinary_def table_defs)

text \<open>
  C1 as stated fails for an input that holds a placeholder: the one-unit string U+E003
  comes back as the three code units U+0B95 U+0BCD U+0BB7.
\<close>

theorem segment_placeholder_input_not_lossless: "concat (segment [0xE003]) \<noteq> [0xE003]"
  using ordinary_E003
  by (simp add: segment_def makeGraphemeClusters_def ordinary_def makeTokens_def reinstate_def)

subsection \<open>Conjuncts\<close>

lemma in_ranges_outside: "outside a b rs \<Longrightarrow> a \<le> c \<Longrightarrow> c \<le> b \<Longrightarrow> \<not> in_ranges rs c"
  by (induction rs) (auto simp: outside_def in_ranges_def)

lemma devanagari_gap1:
  "outside 0x0904 0x0939 EXTEND_RANGES" "outside 0x0904 0x0939 SPACING_MARK_RANGES"
  "outside 0x0904 0x0939 CONTROL_RANGES" "outside 0x0904 0x0939 PREPEND_RANGES"
  by (simp_all add: outside_def EXTEND_RANGES_def SPACING_MARK_RANGES_def CONTROL_RANGES_def
      PREPEND_RANGES_def)

lemma devanagari_gap2:
  "outside 0x0958 0x0961 EXTEND_RANGES" "outside 0x0958 0x0961 SPACING_MARK_RANGES"
  "outside 0x0958 0x0961 CONTROL_RANGES" "outside 0x0958 0x0961 PREPEND_RANGES"
  by (simp_all add: outside_def EXTEND_RANGES_def SPACING_MARK_RANGES_def CONTROL_RANGES_def
      PREPEND_RANGES_def)

lemma devanagari_gap3:
  "outside 0x0964 0x0980 EXTEND_RANGES" "outside 0x0964 0x0980 SPACING_MARK_RANGES"
  "outside 0x0964 0x0980 CONTROL_RANGES" "outside 0x0964 0x0980 PREPEND_RANGES"
  by (simp_all add: outside_def EXTEND_RANGES_def SPACING_MARK_RANGES_def CONTROL_RANGES_def
      PREPEND_RANGES_def)

lemma ordinary_outside:
  assumes "outside a b EXTEND_RANGES" "outside a b SPACING_MARK_RANGES"
    "outside a b CONTROL_RANGES" "outside a b PREPEND_RANGES"
    and "a \<le> unat u" "unat u \<le> b" "u \<noteq> 0xE006" "u \<noteq> 0xE007"
  shows "ordinary [u]"
  using assms in_ranges_outside [of a b _ "unat u"]
  by (simp add: ordinary_def EXTEND_SET_has_def SPACING_MARK_SET_has_def CONTROL_SET_has_def
      PREPEND_SET_has_def table_has_def)

lemma devanagari_consonant_unit:
  "[v] \<in> set DEVANAGARI_CONSONANTS \<Longrightarrow> devanagariConsonantLetter v"
  by (auto simp: DEVANAGARI_CONSONANTS_def devanagariConsonantLetter_def)

lemma devanagari_consonant_ordinary:
  assumes "devanagariConsonantLetter u"
  shows "ordinary [u]"
proof -
  from assms consider "0x0915 \<le> u \<and> u \<le> 0x0939" | "0x0958 \<le> u \<and> u \<le> 0x095F"
    | "0x0978 \<le> u \<and> u \<le> 0x097F"
    unfolding devanagariConsonantLetter_def by blast
  then show ?thesis
  proof cases
    case 1
    then have "0x0904 \<le> unat u" "unat u \<le> 0x0939" "u \<noteq> 0xE006" "u \<noteq> 0xE007"
      by (auto simp: word_le_nat_alt)
    then show ?thesis by (rule ordinary_outside [OF devanagari_gap1])
  next
    case 2
    then have "0x0958 \<le> unat u" "unat u \<le> 0x0961" "u \<noteq> 0xE006" "u \<noteq> 0xE007"
      by (auto simp: word_le_nat_alt)
    then show ?thesis by (rule ordinary_outside [OF devanagari_gap2])
  next
    case 3
    then have "0x0964 \<le> unat u" "unat u \<le> 0x0980" "u \<noteq> 0xE006" "u \<noteq> 0xE007"
      by (auto simp: word_le_nat_alt)
    then show ?thesis by (rule ordinary_outside [OF devanagari_gap3])
  qed
qed

lemma devanagari_consonant_no_token:
  assumes "devanagariConsonantLetter u"
  shows "u \<notin> {0x0DCA, 0x200D, 0x0B95, 0x0BB8, 0x0BB6, 0xE001, 0xE002, 0xE003, 0xE004, 0xE005}"
  using assms unfolding devanagariConsonantLetter_def by auto

lemma virama_094D: "EXTEND_SET_has [0x094D]" "set_has VIRAMA_SET (Some [0x094D])"
  by (simp_all add: table_defs set_has_def VIRAMA_SET_def)

lemma clusters_conjunct:
  assumes "ordinary [u]" "ordinary [v]"
  shows "makeGraphemeClusters [u, 0x094D, v] = [[u, 0x094D], [v]]"
  using assms virama_094D(1)
  by (simp add: makeGraphemeClusters_def ordinary_def isHighSurrogate_def isLowSurrogate_def)

text \<open>
  C5, as amended: a consonant letter of the Devanagari block, the virama U+094D and one of
  the forty Devanagari consonants that \<open>CONSONANTS_SET\<close> lists make one segment: the whole
  three-code-point string.
\<close>

theorem devanagari_conjunct_one_segment:
  assumes "devanagariConsonantLetter u" and "[v] \<in> set DEVANAGARI_CONSONANTS"
  shows "segment [u, 0x094D, v] = [[u, 0x094D, v]]"
proof -
  have dv: "devanagariConsonantLetter v" using assms(2) by (rule devanagari_consonant_unit)
  have ou: "ordinary [u]" and ov: "ordinary [v]"
    using assms(1) dv by (simp_all only: devanagari_consonant_ordinary)
  note nu = devanagari_consonant_no_token [OF assms(1)]
    and nv = devanagari_consonant_no_token [OF dv]
  have t1: "makeTokens [u, 0x094D] = [u, 0x094D]" and t2: "makeTokens [v] = [v]"
    using nu nv by (simp_all add: makeTokens_def)
  have "set_has CONSONANTS_SET (Some [v])"
    using assms(2) by (simp add: set_has_def CONSONANTS_SET_def)
  then have j: "joins [u, 0x094D] [v]"
    using virama_094D(2) by (simp add: joins_def lastUnit_def firstUnit_def)
  have r: "reinstate [u, 0x094D, v] = [u, 0x094D, v]"
    using nu nv by (simp add: reinstate_def)
  show ?thesis
    by (simp add: segment_def clusters_conjunct [OF ou ov] t1 t2 j r)
qed

theorem devanagari_conjunct_one_segment_witness:
  "devanagariConsonantLetter 0x0929 \<and> [0x0937] \<in> set DEVANAGARI_CONSONANTS
   \<and> segment [0x0929, 0x094D, 0x0937] = [[0x0929, 0x094D, 0x0937]]"
proof -
  have a: "devanagariConsonantLetter 0x0929" by (simp add: devanagariConsonantLetter_def)
  have b: "[0x0937] \<in> set DEVANAGARI_CONSONANTS" by (simp add: DEVANAGARI_CONSONANTS_def)
  from devanagari_conjunct_one_segment [OF a b] a b show ?thesis by simp
qed

lemma not_joined_0931:
  "\<not> set_has CONSONANTS_SET (Some [0x0931])" "\<not> set_has EXCEPTIONS_SET (Some [0x0931])"
  "\<not> set_has INVISIBLE_STACKER_SET (Some [0x094D])"
  by (simp_all add: set_has_def CONSONANTS_SET_def BALINESE_CONSONANTS_def
      DEVANAGARI_CONSONANTS_def SINHALA_CONSONANTS_def JAVANESE_CONSONANTS_def
      MALAYALAM_CONSONANTS_def BENGALI_CONSONANTS_def GURMUKHI_CONSONANTS_def
      EXCEPTIONS_SET_def INVISIBLE_STACKER_SET_def)

text \<open>
  C5 as stated fails: U+0931 (RRA) is a consonant letter of the Devanagari block that
  \<open>CONSONANTS_SET\<close> does not list, and KA, virama, RRA comes back as two segments.
\<close>

theorem devanagari_conjunct_unlisted_consonant:
  "devanagariConsonantLetter 0x0915 \<and> devanagariConsonantLetter 0x0931
   \<and> segment [0x0915, 0x094D, 0x0931] = [[0x0915, 0x094D], [0x0931]]"
proof -
  have a: "devanagariConsonantLetter 0x0915" and b: "devanagariConsonantLetter 0x0931"
    by (simp_all add: devanagariConsonantLetter_def)
  note nu = devanagari_consonant_no_token [OF a] and nv = devanagari_consonant_no_token [OF b]
  have c: "makeGraphemeClusters [0x0915, 0x094D, 0x0931] = [[0x0915, 0x094D], [0x0931]]"
    by (rule clusters_conjunct [OF devanagari_consonant_ordinary [OF a]
          devanagari_consonant_ordinary [OF b]])
  have t1: "makeTokens [0x0915, 0x094D] = [0x0915, 0x094D]" and t2: "makeTokens [0x0931] = [0x0931]"
    by (simp_all add: makeTokens_def)
  have j: "\<not> joins [0x0915, 0x094D] [0x0931]"
    using not_joined_0931 by (simp add: joins_def lastUnit_def firstUnit_def)
  have r: "reinstate [0x0915, 0x094D] = [0x0915, 0x094D]" "reinstate [0x0931] = [0x0931]"
    by (simp_all add: reinstate_def)
  have "segment [0x0915, 0x094D, 0x0931] = [[0x0915, 0x094D], [0x0931]]"
    by (simp add: segment_def c t1 t2 j r)
  with a b show ?thesis by (intro conjI)
qed

subsection \<open>A leading Prepend code point\<close>

lemma ordinary_a: "ordinary [0x0061]"
  by (simp add: ordinary_def table_defs)

lemma prepend_0600: "PREPEND_SET_has [0x0600] \<and> \<not> EXTEND_SET_has [0x0600]
    \<and> \<not> SPACING_MARK_SET_has [0x0600] \<and> \<not> CONTROL_SET_has [0x0600]"
  by (simp add: table_defs)

lemma clusters_0600_a: "makeGraphemeClusters [0x0600, 0x0061] = [[], [0x0600, 0x0061]]"
  using ordinary_a prepend_0600
  by (simp add: makeGraphemeClusters_def ordinary_def isHighSurrogate_def isLowSurrogate_def)

lemma not_exception_0600: "\<not> set_has EXCEPTIONS_SET (Some [0x0600])"
  by (simp add: set_has_def EXCEPTIONS_SET_def)

text \<open>
  C6: for the Prepend code point U+0600 followed by the letter a, \<open>segment\<close> returns two
  segments, an empty one and the pair: the Prepend branch pushes the cluster that it closes
  also when that cluster is the initial, empty one.
\<close>

theorem segment_prepend_first_empty_segment:
  "segment [0x0600, 0x0061] = [[], [0x0600, 0x0061]]"
  using not_exception_0600
  by (simp add: segment_def clusters_0600_a makeTokens_def reinstate_def joins_def
      lastUnit_def firstUnit_def set_has_def)


subsection \<open>The table sets and String.fromCodePoint\<close>

lemma unat_surrogates:
  "isHighSurrogate h \<Longrightarrow> 0xD800 \<le> unat h \<and> unat h \<le> 0xDBFF"
  "isLowSurrogate l \<Longrightarrow> 0xDC00 \<le> unat l \<and> unat l \<le> 0xDFFF"
  by (simp_all add: isHighSurrogate_def isLowSurrogate_def word_le_nat_alt)

lemma fromCodePoint_codePointOf:
  assumes "codePointOf s = Some c"
  shows "fromCodePoint c = s"
proof -
  consider (one) u where "s = [u]" | (two) h l where "s = [h, l]" | (other) "codePointOf s = None"
    by (cases s rule: codePointOf.cases) auto
  then show ?thesis
  proof cases
    case (one u)
    with assms have c: "c = unat u" by simp
    have "unat u < 2 ^ LENGTH(16)" by (rule unsigned_less)
    then have "unat u < 0x10000" by simp
    with c one show ?thesis by (simp add: fromCodePoint_def)
  next
    case (two h l)
    with assms have hl: "isHighSurrogate h" "isLowSurrogate l" and c: "c = pairCodePoint h l"
      by (auto split: if_splits)
    from unat_surrogates(1) [OF hl(1)] unat_surrogates(2) [OF hl(2)]
    have a: "unat h = 0xD800 + (unat h - 0xD800)" "unat h - 0xD800 < 0x400"
      and b: "unat l = 0xDC00 + (unat l - 0xDC00)" "unat l - 0xDC00 < 0x400"
      by linarith+
    define a' where "a' = unat h - 0xD800"
    define b' where "b' = unat l - 0xDC00"
    note a = a [folded a'_def] and b = b [folded b'_def]
    have c': "c = a' * 0x400 + b' + 0x10000" using c by (simp add: pairCodePoint_def a'_def b'_def)
    have "(c - 0x10000) div 0x400 = a'" "(c - 0x10000) mod 0x400 = b'" using c' b(2) by simp_all
    moreover have "(of_nat (0xD800 + a') :: 16 word) = h" using a(1) by (metis of_nat_unat ucast_id)
    moreover have "(of_nat (0xDC00 + b') :: 16 word) = l" using b(1) by (metis of_nat_unat ucast_id)
    ultimately show ?thesis using c' two by (simp add: fromCodePoint_def)
  next
    case other
    with assms show ?thesis by simp
  qed
qed


lemma codePointOf_fromCodePoint:
  assumes "n \<le> 0x10FFFF"
  shows "codePointOf (fromCodePoint n) = Some n"
proof (cases "n < 0x10000")
  case True
  then have "n < (2 :: nat) ^ LENGTH(16)" by simp
  then have "unat (of_nat n :: 16 word) = n" by (simp only: unat_of_nat mod_less)
  with True show ?thesis by (simp add: fromCodePoint_def)
next
  case False
  define k where "k = n - 0x10000"
  have k: "k < 0x100000" "n = k + 0x10000" using assms False by (simp_all add: k_def)
  then have d: "k div 0x400 < 0x400" and m: "k mod 0x400 < 0x400" by simp_all
  have h: "unat (of_nat (0xD800 + k div 0x400) :: 16 word) = 0xD800 + k div 0x400"
  proof -
    have "0xD800 + k div 0x400 < (2 :: nat) ^ LENGTH(16)" using d by simp
    then show ?thesis by (simp only: unat_of_nat mod_less)
  qed
  have l: "unat (of_nat (0xDC00 + k mod 0x400) :: 16 word) = 0xDC00 + k mod 0x400"
  proof -
    have "0xDC00 + k mod 0x400 < (2 :: nat) ^ LENGTH(16)" using m by simp
    then show ?thesis by (simp only: unat_of_nat mod_less)
  qed
  have hs: "isHighSurrogate (of_nat (0xD800 + k div 0x400))"
    unfolding isHighSurrogate_def word_le_nat_alt h using d by simp
  have ls: "isLowSurrogate (of_nat (0xDC00 + k mod 0x400))"
    unfolding isLowSurrogate_def word_le_nat_alt l using m by simp
  have "pairCodePoint (of_nat (0xD800 + k div 0x400)) (of_nat (0xDC00 + k mod 0x400)) = n"
    unfolding pairCodePoint_def h l using k(2) by simp
  with hs ls False show ?thesis by (simp add: fromCodePoint_def k_def)
qed

text \<open>
  \<open>table_has\<close> is membership in the set that the initializer of \<open>SETS\<close> builds from a
  list of ranges: the strings \<open>String.fromCodePoint(n)\<close> for the numbers \<open>n\<close> of the ranges.
\<close>

lemma table_has_fromCodePoint:
  assumes "list_all (\<lambda>(lo, hi). hi \<le> 0x10FFFF) rs"
  shows "table_has rs s \<longleftrightarrow> (\<exists>(lo, hi) \<in> set rs. \<exists>n. lo \<le> n \<and> n \<le> hi \<and> s = fromCodePoint n)"
proof
  assume "table_has rs s"
  then obtain c where c: "codePointOf s = Some c" "in_ranges rs c"
    by (auto simp: table_has_def split: option.splits)
  from c(2) obtain lo hi where "(lo, hi) \<in> set rs" "lo \<le> c" "c \<le> hi"
    by (auto simp: in_ranges_def list_ex_iff)
  with fromCodePoint_codePointOf [OF c(1)]
  show "\<exists>(lo, hi) \<in> set rs. \<exists>n. lo \<le> n \<and> n \<le> hi \<and> s = fromCodePoint n" by force
next
  assume "\<exists>(lo, hi) \<in> set rs. \<exists>n. lo \<le> n \<and> n \<le> hi \<and> s = fromCodePoint n"
  then obtain lo hi n where r: "(lo, hi) \<in> set rs" "lo \<le> n" "n \<le> hi" "s = fromCodePoint n"
    by auto
  from assms r(1) have "hi \<le> 0x10FFFF" by (auto simp: list_all_iff)
  with r(3) have "n \<le> 0x10FFFF" by simp
  from codePointOf_fromCodePoint [OF this] r show "table_has rs s"
    by (auto simp: table_has_def in_ranges_def list_ex_iff)
qed

lemma tables_in_range:
  "list_all (\<lambda>(lo, hi). hi \<le> 0x10FFFF) PREPEND_RANGES"
  "list_all (\<lambda>(lo, hi). hi \<le> 0x10FFFF) CONTROL_RANGES"
  "list_all (\<lambda>(lo, hi). hi \<le> 0x10FFFF) EXTEND_RANGES"
  "list_all (\<lambda>(lo, hi). hi \<le> 0x10FFFF) SPACING_MARK_RANGES"
  by (simp_all add: PREPEND_RANGES_def CONTROL_RANGES_def EXTEND_RANGES_def SPACING_MARK_RANGES_def)


section \<open>Properties of the glyph manager\<close>


subsection \<open>Entries\<close>

lemma entryOf_putEntry [simp]:
  "entryOf (putEntry s stack e) st = (if st = stack then e else entryOf s st)"
  by (simp add: entryOf_def putEntry_def)

lemma putEntry_fields [simp]:
  "localIdeographFontFamily (putEntry s stack e) = localIdeographFontFamily s"
  "url (putEntry s stack e) = url s"
  "promises (putEntry s stack e) = promises s"
  "calls (putEntry s stack e) = calls s"
  "waiting (putEntry s stack e) = waiting s"
  "finished (putEntry s stack e) = finished s"
  by (simp_all add: putEntry_def)

lemma putEntry_putEntry [simp]: "putEntry (putEntry s stack e) stack e' = putEntry s stack e'"
  by (simp add: putEntry_def)

lemma entryOf_other_fields [simp]:
  "entryOf (s\<lparr>promises := p\<rparr>) st = entryOf s st"
  "entryOf (s\<lparr>calls := c\<rparr>) st = entryOf s st"
  "entryOf (s\<lparr>waiting := w\<rparr>) st = entryOf s st"
  "entryOf (s\<lparr>finished := f\<rparr>) st = entryOf s st"
  "entryOf (s\<lparr>url := u\<rparr>) st = entryOf s st"
  by (simp_all add: entryOf_def)

lemma entryOf_new [simp]: "entryOf (newGlyphManager family) st = newEntry"
  by (simp add: entryOf_def newGlyphManager_def)

lemma fetchCount_fields [simp]:
  "fetchCount (putEntry s stack e) st r = fetchCount s st r"
  "fetchCount (s\<lparr>promises := p\<rparr>) st r = fetchCount s st r"
  "fetchCount (s\<lparr>waiting := w\<rparr>) st r = fetchCount s st r"
  "fetchCount (s\<lparr>finished := f\<rparr>) st r = fetchCount s st r"
  "fetchCount (s\<lparr>url := u\<rparr>) st r = fetchCount s st r"
  by (simp_all add: fetchCount_def)

lemma fetchCount_calls_snoc:
  "fetchCount (s\<lparr>calls := calls s @ [(stack, r, u)]\<rparr>) st r' =
     fetchCount s st r' + (if st = stack \<and> r' = r then 1 else 0)"
  by (auto simp: fetchCount_def)

subsection \<open>Local synthesis leaves the maps of the entry alone\<close>

lemma tinySDF_frame:
  assumes "tinySDF draw family entry stack gid = (r, e')"
  shows "glyphs e' = glyphs entry \<and> requests e' = requests entry \<and> ranges e' = ranges entry"
  using assms
  by (auto simp: tinySDF_def Let_def split: option.splits if_splits)

lemma tinySDF_truthy:
  assumes "truthy family"
  shows "\<exists>g e'. tinySDF draw family entry stack gid = (Some g, e')"
  using assms
  by (auto simp: tinySDF_def truthy_def Let_def split: option.splits)

lemma tinySDF_cache_independent:
  "fst (tinySDF draw family (entry\<lparr>glyphs := m\<rparr>) stack gid) = fst (tinySDF draw family entry stack gid)"
  by (auto simp: tinySDF_def Let_def split: option.splits)

subsection \<open>What the start of a lookup does\<close>

lemma remoteStart_effect:
  assumes "remoteStart s stack gid glyph = (s', out)"
  shows "(s' = s \<and> (\<forall>r h. out = Await r h \<longrightarrow> requests (entryOf s stack) r = Some h))
     \<or> (\<exists>r u. requests (entryOf s stack) r = None \<and> ranges (entryOf s stack) r \<noteq> Some True
          \<and> out = Await r (length (promises s))
          \<and> s' = (putEntry s stack
                     ((entryOf s stack)\<lparr>requests := (requests (entryOf s stack))(r \<mapsto> length (promises s))\<rparr>))
                  \<lparr>promises := promises s @ [Pending], calls := calls s @ [(stack, r, u)]\<rparr>)"
  using assms
  by (auto simp: remoteStart_def Let_def split: option.splits if_splits)

lemma start_type_error:
  assumes "entries s stack = None" and "inheritedKey stack"
  shows "getAndCacheGlyphsStart draw s stack gid = (s, Throw TypeError)"
  using assms by (simp add: getAndCacheGlyphsStart_def)

lemma start_effect:
  assumes "getAndCacheGlyphsStart draw s stack gid = (s', out)"
    and own: "\<not> (entries s stack = None \<and> inheritedKey stack)"
  shows "\<exists>e'. requests e' = requests (entryOf s stack) \<and> ranges e' = ranges (entryOf s stack)
      \<and> dom (glyphs (entryOf s stack)) \<subseteq> dom (glyphs e')
      \<and> ((s' = putEntry s stack e' \<and> (\<forall>r h. out = Await r h \<longrightarrow> requests e' r = Some h))
         \<or> (\<exists>r u. requests e' r = None \<and> ranges e' r \<noteq> Some True
              \<and> out = Await r (length (promises s))
              \<and> s' = (putEntry s stack (e'\<lparr>requests := (requests e')(r \<mapsto> length (promises s))\<rparr>))
                      \<lparr>promises := promises s @ [Pending], calls := calls s @ [(stack, r, u)]\<rparr>))"
proof (cases "trim gid = []")
  case True
  with assms have "s' = putEntry s stack (entryOf s stack)" "out = Return (readGlyph (glyphs (entryOf s stack)) gid)"
    by (auto simp add: getAndCacheGlyphsStart_def Let_def)
  then show ?thesis by (intro exI [of _ "entryOf s stack"]) simp
next
  case False
  define synth where "synth = (if doesSegmentSupportLocalGlyph (localIdeographFontFamily s) gid
                     then tinySDF draw (localIdeographFontFamily s) (entryOf s stack) stack gid
                     else (None, entryOf s stack))"
  obtain r e1 where synth: "synth = (r, e1)" by (cases synth)
  have fr: "glyphs e1 = glyphs (entryOf s stack) \<and> requests e1 = requests (entryOf s stack)
      \<and> ranges e1 = ranges (entryOf s stack)"
    using synth tinySDF_frame unfolding synth_def by (auto split: if_splits)
  show ?thesis
  proof (cases r)
    case (Some g)
    with assms False synth
    have "s' = putEntry s stack (e1\<lparr>glyphs := (glyphs e1)(gid \<mapsto> Some g)\<rparr>)" "out = Return (Glyph g)"
      by (simp_all add: getAndCacheGlyphsStart_def Let_def synth_def)
    with fr show ?thesis
      by (intro exI [of _ "e1\<lparr>glyphs := (glyphs e1)(gid \<mapsto> Some g)\<rparr>"]) auto
  next
    case None
    show ?thesis
    proof (cases "readGlyph (glyphs (entryOf s stack)) gid \<noteq> Undefined")
      case True
      with assms False synth None
      have "s' = putEntry s stack e1" "out = Return (readGlyph (glyphs (entryOf s stack)) gid)"
        by (simp_all add: getAndCacheGlyphsStart_def Let_def synth_def)
      with fr show ?thesis by (intro exI [of _ e1]) auto
    next
      case undef: False
      with assms False synth None
      have rs: "remoteStart (putEntry s stack e1) stack gid Undefined = (s', out)"
        by (simp add: getAndCacheGlyphsStart_def Let_def synth_def)
      from remoteStart_effect [OF rs] fr show ?thesis
        by (intro exI [of _ e1]) auto
    qed
  qed
qed


lemma remoteStart_await:
  assumes "remoteStart s stack gid glyph = (s', Await r h)"
  shows "(\<exists>cp. codePointAt0 gid = Some cp \<and> r = cp div 256)
     \<and> ranges (entryOf s stack) r \<noteq> Some True \<and> truthy (url s)"
  using assms
  by (auto simp: remoteStart_def Let_def split: option.splits if_splits)

lemma start_await:
  assumes "getAndCacheGlyphsStart draw s stack gid = (s', Await r h)"
  shows "(\<exists>cp. codePointAt0 gid = Some cp \<and> r = cp div 256)
     \<and> ranges (entryOf s stack) r \<noteq> Some True \<and> truthy (url s)"
proof (cases "trim gid = []")
  case True
  with assms show ?thesis by (simp add: getAndCacheGlyphsStart_def Let_def split: if_splits)
next
  case False
  define synth where "synth = (if doesSegmentSupportLocalGlyph (localIdeographFontFamily s) gid
                     then tinySDF draw (localIdeographFontFamily s) (entryOf s stack) stack gid
                     else (None, entryOf s stack))"
  obtain x e1 where synth: "synth = (x, e1)" by (cases synth)
  have fr: "ranges e1 = ranges (entryOf s stack)"
    using synth tinySDF_frame unfolding synth_def by (auto split: if_splits)
  show ?thesis
  proof (cases x)
    case (Some g)
    with assms False synth show ?thesis
      by (simp add: getAndCacheGlyphsStart_def Let_def synth_def split: if_splits)
  next
    case None
    show ?thesis
    proof (cases "readGlyph (glyphs (entryOf s stack)) gid \<noteq> Undefined")
      case True
      with assms False synth None show ?thesis
        by (simp add: getAndCacheGlyphsStart_def Let_def synth_def split: if_splits)
    next
      case undef: False
      with assms False synth None
      have rs: "remoteStart (putEntry s stack e1) stack gid Undefined = (s', Await r h)"
        by (simp add: getAndCacheGlyphsStart_def Let_def synth_def split: if_splits)
      from remoteStart_await [OF rs] fr show ?thesis by simp
    qed
  qed
qed

lemma start_await_range:
  assumes "getAndCacheGlyphsStart draw s stack gid = (s', Await r h)"
  shows "rangeOf gid = Some r"
  using start_await [OF assms] by (auto simp: rangeOf_def)


subsection \<open>Steps keep the bookkeeping consistent\<close>

lemma lookup_step_cases:
  obtains (plain) e' where
      "requests e' = requests (entryOf s stack)" "ranges e' = ranges (entryOf s stack)"
      "dom (glyphs (entryOf s stack)) \<subseteq> dom (glyphs e')"
      "\<exists>out. step draw s (Lookup stack gid) = (putEntry s stack e')\<lparr>finished := finished s @ [(stack, gid, out)]\<rparr>"
  | (join) e' r h where
      "requests e' = requests (entryOf s stack)" "ranges e' = ranges (entryOf s stack)"
      "dom (glyphs (entryOf s stack)) \<subseteq> dom (glyphs e')"
      "requests e' r = Some h"
      "step draw s (Lookup stack gid) = (putEntry s stack e')\<lparr>waiting := waiting s @ [(stack, gid, r, h)]\<rparr>"
      "rangeOf gid = Some r"
  | (fetch) e' r u where
      "requests e' = requests (entryOf s stack)" "ranges e' = ranges (entryOf s stack)"
      "dom (glyphs (entryOf s stack)) \<subseteq> dom (glyphs e')"
      "requests e' r = None" "ranges e' r \<noteq> Some True"
      "step draw s (Lookup stack gid) =
         (putEntry s stack (e'\<lparr>requests := (requests e')(r \<mapsto> length (promises s))\<rparr>))
           \<lparr>promises := promises s @ [Pending], calls := calls s @ [(stack, r, u)],
            waiting := waiting s @ [(stack, gid, r, length (promises s))]\<rparr>"
      "rangeOf gid = Some r"
  | (broken) "entries s stack = None" "inheritedKey stack"
      "step draw s (Lookup stack gid) = s\<lparr>finished := finished s @ [(stack, gid, Throw TypeError)]\<rparr>"
proof (cases "entries s stack = None \<and> inheritedKey stack")
  case True
  then have "getAndCacheGlyphsStart draw s stack gid = (s, Throw TypeError)"
    by (simp add: start_type_error)
  then have "step draw s (Lookup stack gid) = s\<lparr>finished := finished s @ [(stack, gid, Throw TypeError)]\<rparr>"
    by (simp add: step_def)
  with True show ?thesis by (intro broken) simp_all
next
  case own: False
  obtain s' out where st: "getAndCacheGlyphsStart draw s stack gid = (s', out)"
    by (cases "getAndCacheGlyphsStart draw s stack gid")
  from start_effect [OF st own] obtain e' where e:
    "requests e' = requests (entryOf s stack)" "ranges e' = ranges (entryOf s stack)"
    "dom (glyphs (entryOf s stack)) \<subseteq> dom (glyphs e')"
    and alt: "(s' = putEntry s stack e' \<and> (\<forall>r h. out = Await r h \<longrightarrow> requests e' r = Some h))
         \<or> (\<exists>r u. requests e' r = None \<and> ranges e' r \<noteq> Some True
              \<and> out = Await r (length (promises s))
              \<and> s' = (putEntry s stack (e'\<lparr>requests := (requests e')(r \<mapsto> length (promises s))\<rparr>))
                      \<lparr>promises := promises s @ [Pending], calls := calls s @ [(stack, r, u)]\<rparr>)"
    by blast
  from alt show ?thesis
  proof
    assume a: "s' = putEntry s stack e' \<and> (\<forall>r h. out = Await r h \<longrightarrow> requests e' r = Some h)"
    show ?thesis
    proof (cases out)
      case (Await r h)
      with a st have eq: "step draw s (Lookup stack gid)
          = (putEntry s stack e')\<lparr>waiting := waiting s @ [(stack, gid, r, h)]\<rparr>"
        by (simp add: step_def)
      from a Await have rq: "requests e' r = Some h" by simp
      have rg: "rangeOf gid = Some r" using st unfolding Await by (rule start_await_range)
      from e rq eq rg show ?thesis by (rule join)
    next
      case (Return g)
      with a st have "step draw s (Lookup stack gid)
          = (putEntry s stack e')\<lparr>finished := finished s @ [(stack, gid, out)]\<rparr>"
        by (simp add: step_def)
      then have "\<exists>out. step draw s (Lookup stack gid)
          = (putEntry s stack e')\<lparr>finished := finished s @ [(stack, gid, out)]\<rparr>" ..
      with e show ?thesis by (rule plain)
    next
      case (Throw x)
      with a st have "step draw s (Lookup stack gid)
          = (putEntry s stack e')\<lparr>finished := finished s @ [(stack, gid, out)]\<rparr>"
        by (simp add: step_def)
      then have "\<exists>out. step draw s (Lookup stack gid)
          = (putEntry s stack e')\<lparr>finished := finished s @ [(stack, gid, out)]\<rparr>" ..
      with e show ?thesis by (rule plain)
    qed
  next
    assume "\<exists>r u. requests e' r = None \<and> ranges e' r \<noteq> Some True
              \<and> out = Await r (length (promises s))
              \<and> s' = (putEntry s stack (e'\<lparr>requests := (requests e')(r \<mapsto> length (promises s))\<rparr>))
                      \<lparr>promises := promises s @ [Pending], calls := calls s @ [(stack, r, u)]\<rparr>"
    then obtain r u where b: "requests e' r = None" "ranges e' r \<noteq> Some True"
      "out = Await r (length (promises s))"
      "s' = (putEntry s stack (e'\<lparr>requests := (requests e')(r \<mapsto> length (promises s))\<rparr>))
                      \<lparr>promises := promises s @ [Pending], calls := calls s @ [(stack, r, u)]\<rparr>"
      by blast
    with st have eq: "step draw s (Lookup stack gid) =
         (putEntry s stack (e'\<lparr>requests := (requests e')(r \<mapsto> length (promises s))\<rparr>))
           \<lparr>promises := promises s @ [Pending], calls := calls s @ [(stack, r, u)],
            waiting := waiting s @ [(stack, gid, r, length (promises s))]\<rparr>"
      by (simp add: step_def)
    have rg: "rangeOf gid = Some r" using st unfolding b(3) by (rule start_await_range)
    from e b(1,2) eq rg show ?thesis by (rule fetch)
  qed
qed


lemma resume_step_cases:
  obtains (idle) "step draw s (Resume k) = s"
  | (rejected) st gid r h where
      "k < length (waiting s)" "waiting s ! k = (st, gid, r, h)"
      "h < length (promises s)" "promises s ! h = Rejected"
      "step draw s (Resume k) =
         s\<lparr>waiting := take k (waiting s) @ drop (Suc k) (waiting s),
           finished := finished s @ [(st, gid, Throw SourceFetchError)]\<rparr>"
  | (fulfilled) st gid r h resp where
      "k < length (waiting s)" "waiting s ! k = (st, gid, r, h)"
      "h < length (promises s)" "promises s ! h = Fulfilled resp"
      "step draw s (Resume k) =
         (putEntry s st ((entryOf s st)\<lparr>glyphs := glyphs (entryOf s st) ++ resp,
                                        ranges := (ranges (entryOf s st))(r \<mapsto> True)\<rparr>))
           \<lparr>waiting := take k (waiting s) @ drop (Suc k) (waiting s),
            finished := finished s @
              [(st, gid, Return (case readGlyph resp gid of
                                   Glyph g \<Rightarrow> Glyph g | Inherited \<Rightarrow> Inherited | _ \<Rightarrow> Null))]\<rparr>"
proof (cases "k < length (waiting s)")
  case False
  then have "step draw s (Resume k) = s" by (simp add: step_def)
  then show ?thesis by (rule idle)
next
  case True
  obtain st gid r h where w: "waiting s ! k = (st, gid, r, h)"
    by (cases "waiting s ! k")
  show ?thesis
  proof (cases "h < length (promises s)")
    case False
    with True w have "step draw s (Resume k) = s"
      by (simp add: step_def getAndCacheGlyphsResume_def)
    then show ?thesis by (rule idle)
  next
    case h: True
    show ?thesis
    proof (cases "promises s ! h")
      case Pending
      with True w h have "step draw s (Resume k) = s"
        by (simp add: step_def getAndCacheGlyphsResume_def)
      then show ?thesis by (rule idle)
    next
      case Rejected
      with True w h have "step draw s (Resume k) =
         s\<lparr>waiting := take k (waiting s) @ drop (Suc k) (waiting s),
           finished := finished s @ [(st, gid, Throw SourceFetchError)]\<rparr>"
        by (simp add: step_def getAndCacheGlyphsResume_def)
      with True w h Rejected show ?thesis by (rule rejected)
    next
      case (Fulfilled resp)
      show ?thesis
      proof (cases "entries s st")
        case None
        with True w h Fulfilled have "step draw s (Resume k) = s"
          by (simp add: step_def getAndCacheGlyphsResume_def)
        then show ?thesis by (rule idle)
      next
        case (Some e)
        then have e: "entryOf s st = e" by (simp add: entryOf_def)
        from True w h Fulfilled Some have "step draw s (Resume k) =
           (putEntry s st ((entryOf s st)\<lparr>glyphs := glyphs (entryOf s st) ++ resp,
                                          ranges := (ranges (entryOf s st))(r \<mapsto> True)\<rparr>))
             \<lparr>waiting := take k (waiting s) @ drop (Suc k) (waiting s),
              finished := finished s @
                [(st, gid, Return (case readGlyph resp gid of
                                     Glyph g \<Rightarrow> Glyph g | Inherited \<Rightarrow> Inherited | _ \<Rightarrow> Null))]\<rparr>"
          unfolding e by (simp add: step_def getAndCacheGlyphsResume_def Let_def)
        with True w h Fulfilled show ?thesis by (rule fulfilled)
      qed
    qed
  qed
qed

lemma set_remove_nth: "set (take k xs @ drop (Suc k) xs) \<subseteq> set xs"
  using set_take_subset [of k xs] set_drop_subset [of "Suc k" xs] by auto

lemma consistent_new: "consistent (newGlyphManager family)"
  by (simp add: consistent_def fetchCount_def newEntry_def) (simp add: newGlyphManager_def)

lemma consistentD:
  assumes "consistent s"
  shows "length (promises s) = length (calls s)"
    and "\<And>st r h. requests (entryOf s st) r = Some h \<Longrightarrow>
        h < length (calls s) \<and> fst (calls s ! h) = st \<and> fst (snd (calls s ! h)) = r"
    and "\<And>st r. fetchCount s st r = (if requests (entryOf s st) r = None then 0 else 1)"
    and "\<And>st g r h. (st, g, r, h) \<in> set (waiting s) \<Longrightarrow> requests (entryOf s st) r = Some h"
    and "\<And>st r. ranges (entryOf s st) r = Some True \<Longrightarrow>
        \<exists>h resp. requests (entryOf s st) r = Some h \<and> promises s ! h = Fulfilled resp
           \<and> dom resp \<subseteq> dom (glyphs (entryOf s st))"
    and "\<And>st g r h. (st, g, r, h) \<in> set (waiting s) \<Longrightarrow> rangeOf g = Some r"
  using assms by (auto simp: consistent_def)

lemma consistentI:
  assumes "length (promises s) = length (calls s)"
    and "\<And>st r h. requests (entryOf s st) r = Some h \<Longrightarrow>
        h < length (calls s) \<and> fst (calls s ! h) = st \<and> fst (snd (calls s ! h)) = r"
    and "\<And>st r. fetchCount s st r = (if requests (entryOf s st) r = None then 0 else 1)"
    and "\<And>st g r h. (st, g, r, h) \<in> set (waiting s) \<Longrightarrow> requests (entryOf s st) r = Some h"
    and "\<And>st r. ranges (entryOf s st) r = Some True \<Longrightarrow>
        \<exists>h resp. requests (entryOf s st) r = Some h \<and> promises s ! h = Fulfilled resp
           \<and> dom resp \<subseteq> dom (glyphs (entryOf s st))"
    and "\<And>st g r h. (st, g, r, h) \<in> set (waiting s) \<Longrightarrow> rangeOf g = Some r"
  shows "consistent s"
proof -
  have 2: "\<forall>st r h. requests (entryOf s st) r = Some h \<longrightarrow>
        h < length (calls s) \<and> fst (calls s ! h) = st \<and> fst (snd (calls s ! h)) = r"
    using assms(2) by blast
  have 3: "\<forall>st r. fetchCount s st r = (if requests (entryOf s st) r = None then 0 else 1)"
    using assms(3) by blast
  have 4: "\<forall>w \<in> set (waiting s). case w of (st, gid, r, h) \<Rightarrow>
        requests (entryOf s st) r = Some h \<and> rangeOf gid = Some r"
    using assms(4) assms(6) by auto
  have 5: "\<forall>st r. ranges (entryOf s st) r = Some True \<longrightarrow>
        (\<exists>h resp. requests (entryOf s st) r = Some h \<and> promises s ! h = Fulfilled resp
           \<and> dom resp \<subseteq> dom (glyphs (entryOf s st)))"
    using assms(5) by blast
  from assms(1) 2 3 4 5 show ?thesis
    unfolding consistent_def by (intro conjI) assumption+
qed

lemma consistent_frame:
  assumes c: "consistent s"
    and p: "promises s' = promises s" and cl: "calls s' = calls s"
    and rq: "\<And>st. requests (entryOf s' st) = requests (entryOf s st)"
    and rg: "\<And>st. ranges (entryOf s' st) = ranges (entryOf s st)"
    and gl: "\<And>st. dom (glyphs (entryOf s st)) \<subseteq> dom (glyphs (entryOf s' st))"
    and wt: "\<And>st g r h. (st, g, r, h) \<in> set (waiting s') \<Longrightarrow>
        (st, g, r, h) \<in> set (waiting s) \<or> requests (entryOf s st) r = Some h \<and> rangeOf g = Some r"
  shows "consistent s'"
proof (rule consistentI)
  show "length (promises s') = length (calls s')" using consistentD(1) [OF c] p cl by simp
next
  fix st r h assume "requests (entryOf s' st) r = Some h"
  then have "requests (entryOf s st) r = Some h" by (simp add: rq)
  from consistentD(2) [OF c this]
  show "h < length (calls s') \<and> fst (calls s' ! h) = st \<and> fst (snd (calls s' ! h)) = r"
    by (simp add: cl)
next
  fix st r
  have "fetchCount s' st r = fetchCount s st r" by (simp add: fetchCount_def cl)
  with consistentD(3) [OF c, of st r]
  show "fetchCount s' st r = (if requests (entryOf s' st) r = None then 0 else 1)"
    by (simp add: rq)
next
  fix st g r h assume "(st, g, r, h) \<in> set (waiting s')"
  from wt [OF this] consistentD(4) [OF c]
  have "requests (entryOf s st) r = Some h" by blast
  then show "requests (entryOf s' st) r = Some h" by (simp add: rq)
next
  fix st r assume "ranges (entryOf s' st) r = Some True"
  then have "ranges (entryOf s st) r = Some True" by (simp add: rg)
  from consistentD(5) [OF c this] obtain h resp where h: "requests (entryOf s st) r = Some h"
    "promises s ! h = Fulfilled resp" "dom resp \<subseteq> dom (glyphs (entryOf s st))" by blast
  have "dom resp \<subseteq> dom (glyphs (entryOf s' st))" using h(3) gl [of st] by (rule subset_trans)
  with h(1,2) show "\<exists>h resp. requests (entryOf s' st) r = Some h \<and> promises s' ! h = Fulfilled resp
           \<and> dom resp \<subseteq> dom (glyphs (entryOf s' st))"
    by (simp add: rq p)
next
  fix st g r h assume "(st, g, r, h) \<in> set (waiting s')"
  from wt [OF this] consistentD(6) [OF c]
  show "rangeOf g = Some r" by blast
qed

lemma consistent_lookup:
  assumes c: "consistent s"
  shows "consistent (step draw s (Lookup stack gid))"
proof (cases rule: lookup_step_cases [where s = s and stack = stack and gid = gid and draw = draw])
  case (plain e')
  then obtain out where
    eq: "step draw s (Lookup stack gid) = (putEntry s stack e')\<lparr>finished := finished s @ [(stack, gid, out)]\<rparr>"
    by blast
  show ?thesis
    unfolding eq using plain(1,2,3)
    by (intro consistent_frame [OF c]) simp_all
next
  case (join e' r h)
  show ?thesis
    unfolding join(5) using join(1,2,3,4,6)
    by (intro consistent_frame [OF c]) auto
next
  case broken
  show ?thesis
    unfolding broken(3) by (intro consistent_frame [OF c]) simp_all
next
  case (fetch e' r u)
  let ?n = "length (promises s)"
  let ?s' = "(putEntry s stack (e'\<lparr>requests := (requests e')(r \<mapsto> ?n)\<rparr>))
           \<lparr>promises := promises s @ [Pending], calls := calls s @ [(stack, r, u)],
            waiting := waiting s @ [(stack, gid, r, ?n)]\<rparr>"
  note len = consistentD(1) [OF c] and B = consistentD(2) [OF c] and F = consistentD(3) [OF c]
    and D = consistentD(4) [OF c] and E = consistentD(5) [OF c]
  have req: "\<And>st r'. requests (entryOf ?s' st) r' =
      (if st = stack \<and> r' = r then Some ?n else requests (entryOf s st) r')"
    using fetch(1) by simp
  have rng: "\<And>st. ranges (entryOf ?s' st) = ranges (entryOf s st)"
    using fetch(2) by simp
  have gl: "\<And>st. dom (glyphs (entryOf s st)) \<subseteq> dom (glyphs (entryOf ?s' st))"
    using fetch(3) by simp
  have none: "requests (entryOf s stack) r = None" using fetch(1,4) by simp
  note entryOf_putEntry [simp del] entryOf_other_fields [simp del]
  have c1: "length (promises ?s') = length (calls ?s')" using len by simp
  have c2: "h < length (calls ?s') \<and> fst (calls ?s' ! h) = st \<and> fst (snd (calls ?s' ! h)) = r'"
    if "requests (entryOf ?s' st) r' = Some h" for st r' h
  proof (cases "st = stack \<and> r' = r")
    case True
    with that have "h = ?n" by (simp add: req)
    with True len show ?thesis by (simp add: nth_append)
  next
    case False
    with that have "requests (entryOf s st) r' = Some h" by (simp add: req)
    from B [OF this] show ?thesis by (simp add: nth_append)
  qed
  have c3: "fetchCount ?s' st r' = (if requests (entryOf ?s' st) r' = None then 0 else 1)" for st r'
  proof -
    have "fetchCount ?s' st r' = fetchCount s st r' + (if st = stack \<and> r' = r then 1 else 0)"
      by (auto simp: fetchCount_def)
    with F [of st r'] none show ?thesis by (auto simp: req)
  qed
  have c4: "requests (entryOf ?s' st) r' = Some h" if "(st, g, r', h) \<in> set (waiting ?s')" for st g r' h
  proof (cases "(st, g, r', h) \<in> set (waiting s)")
    case True
    from D [OF this] none have "requests (entryOf s st) r' = Some h" "\<not> (st = stack \<and> r' = r)"
      by auto
    then show ?thesis by (auto simp: req)
  next
    case False
    with that have "st = stack \<and> r' = r \<and> h = ?n" by simp
    then show ?thesis by (simp add: req)
  qed
  have c5: "\<exists>h resp. requests (entryOf ?s' st) r' = Some h \<and> promises ?s' ! h = Fulfilled resp
           \<and> dom resp \<subseteq> dom (glyphs (entryOf ?s' st))"
    if "ranges (entryOf ?s' st) r' = Some True" for st r'
  proof -
    from that have t: "ranges (entryOf s st) r' = Some True" by (simp add: rng)
    from E [OF t] obtain h resp where h: "requests (entryOf s st) r' = Some h"
      "promises s ! h = Fulfilled resp" "dom resp \<subseteq> dom (glyphs (entryOf s st))" by blast
    from h(1) none have ne: "\<not> (st = stack \<and> r' = r)" by auto
    from B [OF h(1)] len have "h < length (promises s)" by simp
    then have "promises ?s' ! h = Fulfilled resp" using h(2) by (simp add: nth_append)
    moreover have "requests (entryOf ?s' st) r' = Some h" using ne h(1) by (auto simp: req)
    moreover have "dom resp \<subseteq> dom (glyphs (entryOf ?s' st))" using h(3) gl by blast
    ultimately show ?thesis by blast
  qed
  have c6: "rangeOf g = Some r'" if "(st, g, r', h) \<in> set (waiting ?s')" for st g r' h
  proof (cases "(st, g, r', h) \<in> set (waiting s)")
    case True
    then show ?thesis by (rule consistentD(6) [OF c])
  next
    case False
    with that have "g = gid \<and> r' = r" by simp
    then show ?thesis using fetch(7) by simp
  qed
  have "consistent ?s'"
    using c1 c2 c3 c4 c5 c6 by (rule consistentI)
  then show ?thesis unfolding fetch(6) .
qed


lemma consistent_settle:
  assumes c: "consistent s" and h: "h < length (promises s)" "promises s ! h = Pending"
  shows "consistent (s\<lparr>promises := (promises s)[h := p]\<rparr>)"
proof (rule consistentI)
  let ?s' = "s\<lparr>promises := (promises s)[h := p]\<rparr>"
  show "length (promises ?s') = length (calls ?s')" using consistentD(1) [OF c] by simp
  show "h' < length (calls ?s') \<and> fst (calls ?s' ! h') = st \<and> fst (snd (calls ?s' ! h')) = r"
    if "requests (entryOf ?s' st) r = Some h'" for st r h'
    using consistentD(2) [OF c, of st r h'] that by simp
  show "fetchCount ?s' st r = (if requests (entryOf ?s' st) r = None then 0 else 1)" for st r
    using consistentD(3) [OF c, of st r] by simp
  show "requests (entryOf ?s' st) r = Some h'" if "(st, g, r, h') \<in> set (waiting ?s')" for st g r h'
    using consistentD(4) [OF c, of st g r h'] that by simp
  show "\<exists>h' resp. requests (entryOf ?s' st) r = Some h' \<and> promises ?s' ! h' = Fulfilled resp
           \<and> dom resp \<subseteq> dom (glyphs (entryOf ?s' st))"
    if "ranges (entryOf ?s' st) r = Some True" for st r
  proof -
    from that have "ranges (entryOf s st) r = Some True" by simp
    from consistentD(5) [OF c this] obtain h' resp where h': "requests (entryOf s st) r = Some h'"
      "promises s ! h' = Fulfilled resp" "dom resp \<subseteq> dom (glyphs (entryOf s st))" by blast
    from h'(2) h(2) have "h' \<noteq> h" by auto
    then have "promises ?s' ! h' = Fulfilled resp" using h'(2) by simp
    with h'(1,3) show ?thesis by simp
  qed
  show "rangeOf g = Some r" if "(st, g, r, h') \<in> set (waiting ?s')" for st g r h'
    using consistentD(6) [OF c, of st g r h'] that by simp
qed

lemma consistent_resume:
  assumes c: "consistent s"
  shows "consistent (step draw s (Resume k))"
proof (cases rule: resume_step_cases [where s = s and k = k and draw = draw])
  case idle
  with c show ?thesis by simp
next
  case (rejected st gid r h)
  show ?thesis
    unfolding rejected(5) using set_remove_nth [of k "waiting s"]
    by (intro consistent_frame [OF c]) auto
next
  case (fulfilled st gid r h resp)
  let ?e = "(entryOf s st)\<lparr>glyphs := glyphs (entryOf s st) ++ resp,
                                        ranges := (ranges (entryOf s st))(r \<mapsto> True)\<rparr>"
  let ?s' = "(putEntry s st ?e)
           \<lparr>waiting := take k (waiting s) @ drop (Suc k) (waiting s),
            finished := finished s @
              [(st, gid, Return (case readGlyph resp gid of
                                   Glyph g \<Rightarrow> Glyph g | Inherited \<Rightarrow> Inherited | _ \<Rightarrow> Null))]\<rparr>"
  have "(st, gid, r, h) \<in> set (waiting s)" using fulfilled(1,2) by (metis nth_mem)
  from consistentD(4) [OF c this] have rq: "requests (entryOf s st) r = Some h" .
  have req: "\<And>st'. requests (entryOf ?s' st') = requests (entryOf s st')" by simp
  have gl: "\<And>st'. dom (glyphs (entryOf s st')) \<subseteq> dom (glyphs (entryOf ?s' st'))" by auto
  have "consistent ?s'"
  proof (rule consistentI)
    show "length (promises ?s') = length (calls ?s')" using consistentD(1) [OF c] by simp
    show "h' < length (calls ?s') \<and> fst (calls ?s' ! h') = st' \<and> fst (snd (calls ?s' ! h')) = r'"
      if "requests (entryOf ?s' st') r' = Some h'" for st' r' h'
    proof -
      from that have "requests (entryOf s st') r' = Some h'" by (simp only: req)
      from consistentD(2) [OF c this] show ?thesis by simp
    qed
    show "fetchCount ?s' st' r' = (if requests (entryOf ?s' st') r' = None then 0 else 1)" for st' r'
      using consistentD(3) [OF c, of st' r'] by (simp only: req) simp
    show "requests (entryOf ?s' st') r' = Some h'" if "(st', g, r', h') \<in> set (waiting ?s')" for st' g r' h'
    proof -
      from that set_remove_nth [of k "waiting s"] have "(st', g, r', h') \<in> set (waiting s)" by auto
      from consistentD(4) [OF c this] show ?thesis by (simp only: req)
    qed
    show "\<exists>h' resp'. requests (entryOf ?s' st') r' = Some h' \<and> promises ?s' ! h' = Fulfilled resp'
           \<and> dom resp' \<subseteq> dom (glyphs (entryOf ?s' st'))"
      if t: "ranges (entryOf ?s' st') r' = Some True" for st' r'
    proof (cases "st' = st \<and> r' = r")
      case True
      have "dom resp \<subseteq> dom (glyphs (entryOf ?s' st))" by auto
      moreover have "promises ?s' ! h = Fulfilled resp" using fulfilled(4) by simp
      moreover have "requests (entryOf ?s' st) r = Some h" using rq by (simp only: req)
      ultimately show ?thesis using True by blast
    next
      case False
      with t have "ranges (entryOf s st') r' = Some True" by (auto split: if_splits)
      from consistentD(5) [OF c this] obtain h' resp' where h': "requests (entryOf s st') r' = Some h'"
        "promises s ! h' = Fulfilled resp'" "dom resp' \<subseteq> dom (glyphs (entryOf s st'))" by blast
      have "dom resp' \<subseteq> dom (glyphs (entryOf ?s' st'))" using h'(3) gl [of st'] by (rule subset_trans)
      moreover have "promises ?s' ! h' = Fulfilled resp'" using h'(2) by simp
      moreover have "requests (entryOf ?s' st') r' = Some h'" using h'(1) by (simp only: req)
      ultimately show ?thesis by blast
    qed
    show "rangeOf g = Some r'" if "(st', g, r', h') \<in> set (waiting ?s')" for st' g r' h'
    proof -
      from that set_remove_nth [of k "waiting s"] have "(st', g, r', h') \<in> set (waiting s)" by auto
      then show ?thesis by (rule consistentD(6) [OF c])
    qed
  qed
  then show ?thesis unfolding fulfilled(5) .
qed

lemma consistent_step: "consistent s \<Longrightarrow> consistent (step draw s ev)"
proof (cases ev)
  case (Lookup stack gid)
  assume "consistent s"
  then show ?thesis unfolding Lookup by (rule consistent_lookup)
next
  case (SetURL u)
  assume c: "consistent s"
  have "step draw s ev = s\<lparr>url := u\<rparr>" by (simp add: SetURL step_def)
  moreover have "consistent (s\<lparr>url := u\<rparr>)" by (rule consistent_frame [OF c]) simp_all
  ultimately show ?thesis by simp
next
  case (Fulfil h resp)
  assume c: "consistent s"
  then show ?thesis by (simp add: Fulfil step_def consistent_settle)
next
  case (Reject h)
  assume c: "consistent s"
  then show ?thesis by (simp add: Reject step_def consistent_settle)
next
  case (Resume k)
  assume "consistent s"
  then show ?thesis unfolding Resume by (rule consistent_resume)
qed

lemma consistent_run: "consistent s \<Longrightarrow> consistent (run draw s evs)"
  by (induction evs arbitrary: s) (simp_all add: consistent_step)

lemma run_append: "run draw s (evs @ evs') = run draw (run draw s evs) evs'"
  by (induction evs arbitrary: s) simp_all



subsection \<open>What a run never undoes\<close>

lemma requests_step:
  assumes "requests (entryOf s st) r = Some h"
  shows "requests (entryOf (step draw s ev) st) r = Some h"
proof (cases ev)
  case (Lookup stack gid)
  show ?thesis
  proof (cases rule: lookup_step_cases [where s = s and stack = stack and gid = gid and draw = draw])
    case (plain e')
    then show ?thesis using assms unfolding Lookup by auto
  next
    case (join e' r' h')
    then show ?thesis using assms unfolding Lookup by auto
  next
    case (fetch e' r' u)
    then show ?thesis using assms unfolding Lookup by auto
  next
    case broken
    then show ?thesis using assms unfolding Lookup by auto
  qed
next
  case (SetURL u)
  then show ?thesis using assms by (simp add: step_def)
next
  case (Fulfil h' resp)
  then show ?thesis using assms by (simp add: step_def)
next
  case (Reject h')
  then show ?thesis using assms by (simp add: step_def)
next
  case (Resume k)
  show ?thesis
    by (cases rule: resume_step_cases [where s = s and k = k and draw = draw])
      (use assms in \<open>auto simp: Resume\<close>)
qed

lemma ranges_step:
  assumes "ranges (entryOf s st) r = Some True"
  shows "ranges (entryOf (step draw s ev) st) r = Some True"
proof (cases ev)
  case (Lookup stack gid)
  show ?thesis
  proof (cases rule: lookup_step_cases [where s = s and stack = stack and gid = gid and draw = draw])
    case (plain e')
    then show ?thesis using assms unfolding Lookup by auto
  next
    case (join e' r' h')
    then show ?thesis using assms unfolding Lookup by auto
  next
    case (fetch e' r' u)
    then show ?thesis using assms unfolding Lookup by auto
  next
    case broken
    then show ?thesis using assms unfolding Lookup by auto
  qed
next
  case (SetURL u)
  then show ?thesis using assms by (simp add: step_def)
next
  case (Fulfil h' resp)
  then show ?thesis using assms by (simp add: step_def)
next
  case (Reject h')
  then show ?thesis using assms by (simp add: step_def)
next
  case (Resume k)
  show ?thesis
    by (cases rule: resume_step_cases [where s = s and k = k and draw = draw])
      (use assms in \<open>auto simp: Resume\<close>)
qed

lemma promises_step:
  assumes "h < length (promises s)" and "promises s ! h \<noteq> Pending"
  shows "h < length (promises (step draw s ev)) \<and> promises (step draw s ev) ! h = promises s ! h"
proof (cases ev)
  case (Lookup stack gid)
  show ?thesis
  proof (cases rule: lookup_step_cases [where s = s and stack = stack and gid = gid and draw = draw])
    case (plain e')
    then show ?thesis using assms unfolding Lookup by auto
  next
    case (join e' r' h')
    then show ?thesis using assms unfolding Lookup by auto
  next
    case (fetch e' r' u)
    then show ?thesis using assms unfolding Lookup by (auto simp: nth_append)
  next
    case broken
    then show ?thesis using assms unfolding Lookup by auto
  qed
next
  case (SetURL u)
  then show ?thesis using assms by (simp add: step_def)
next
  case (Fulfil h' resp)
  have "h' \<noteq> h" if "promises s ! h' = Pending" using that assms(2) by auto
  then show ?thesis using assms by (auto simp: Fulfil step_def)
next
  case (Reject h')
  have "h' \<noteq> h" if "promises s ! h' = Pending" using that assms(2) by auto
  then show ?thesis using assms by (auto simp: Reject step_def)
next
  case (Resume k)
  show ?thesis
    by (cases rule: resume_step_cases [where s = s and k = k and draw = draw])
      (use assms in \<open>auto simp: Resume\<close>)
qed

lemma requests_run:
  "requests (entryOf s st) r = Some h \<Longrightarrow> requests (entryOf (run draw s evs) st) r = Some h"
  by (induction evs arbitrary: s) (simp_all add: requests_step)

lemma ranges_run:
  "ranges (entryOf s st) r = Some True \<Longrightarrow> ranges (entryOf (run draw s evs) st) r = Some True"
  by (induction evs arbitrary: s) (simp_all add: ranges_step)

lemma promises_run:
  "h < length (promises s) \<Longrightarrow> promises s ! h \<noteq> Pending \<Longrightarrow>
     h < length (promises (run draw s evs)) \<and> promises (run draw s evs) ! h = promises s ! h"
proof (induction evs arbitrary: s)
  case Nil
  then show ?case by simp
next
  case (Cons ev evs)
  from promises_step [OF Cons.prems, of draw ev]
  have a: "h < length (promises (step draw s ev))" "promises (step draw s ev) ! h = promises s ! h"
    by simp_all
  with Cons.prems(2) have "promises (step draw s ev) ! h \<noteq> Pending" by simp
  from Cons.IH [OF a(1) this] a(2) show ?case by simp
qed

lemma consistent_reachable: "consistent (run draw (newGlyphManager family) evs)"
  by (rule consistent_run [OF consistent_new])



lemmas run_eval = step_def getAndCacheGlyphsStart_def remoteStart_def getAndCacheGlyphsResume_def
  Let_def trim_def isWhiteSpace_def doesSegmentSupportLocalGlyph_def truthy_def readGlyph_def
  newGlyphManager_def newEntry_def entryOf_def putEntry_def fetchCount_def getGlyphsLookups_def

subsection \<open>Keys inherited from the object prototype\<close>

lemma inheritedKey_length: "inheritedKey k \<Longrightarrow> 7 \<le> length k"
  by (auto simp: inheritedKey_def objectPrototypeKeys_def ascii_def)

lemma inheritedKey_short [simp]: "length k < 7 \<Longrightarrow> \<not> inheritedKey k"
  using inheritedKey_length [of k] by auto

lemma inheritedKey_constructor: "inheritedKey (ascii ''constructor'')"
  by (simp add: inheritedKey_def objectPrototypeKeys_def)

lemma inheritedKey_ascii:
  assumes "inheritedKey k"
  shows "\<exists>cp. codePointAt0 k = Some cp \<and> cp < 128"
  using assms
  by (auto simp: inheritedKey_def objectPrototypeKeys_def ascii_def isHighSurrogate_def)

lemma entry_of_request:
  assumes "requests (entryOf s stack) r = Some h"
  shows "entries s stack = Some (entryOf s stack)"
  using assms by (cases "entries s stack") (simp_all add: entryOf_def newEntry_def)

lemma entry_of_range:
  assumes "ranges (entryOf s stack) r = Some True"
  shows "entries s stack = Some (entryOf s stack)"
  using assms by (cases "entries s stack") (simp_all add: entryOf_def newEntry_def)

lemma putEntry_same: "entries s stack = Some e \<Longrightarrow> putEntry s stack e = s"
  by (simp add: putEntry_def map_upd_triv)

subsection \<open>Lookups that reach the range request\<close>

lemma cold_lookup_fetch:
  assumes own: "\<not> inheritedKey stack"
    and rg: "rangeOf gid = Some r"
    and nb: "trim gid \<noteq> []"
    and nl: "\<not> doesSegmentSupportLocalGlyph (localIdeographFontFamily s) gid"
    and un: "readGlyph (glyphs (entryOf s stack)) gid = Undefined"
    and ok: "r * 256 \<le> 65535"
    and cold: "ranges (entryOf s stack) r \<noteq> Some True"
    and u: "url s = Some u" "u \<noteq> []"
    and rq: "requests (entryOf s stack) r = None"
  shows "step draw s (Lookup stack gid) =
      (putEntry s stack ((entryOf s stack)\<lparr>requests := (requests (entryOf s stack))(r \<mapsto> length (promises s))\<rparr>))
        \<lparr>promises := promises s @ [Pending], calls := calls s @ [(stack, r, u)],
         waiting := waiting s @ [(stack, gid, r, length (promises s))]\<rparr>"
proof -
  from rg obtain cp where cp: "codePointAt0 gid = Some cp" "cp div 256 = r"
    by (auto simp: rangeOf_def)
  have "getAndCacheGlyphsStart draw s stack gid =
      ((putEntry s stack ((entryOf s stack)\<lparr>requests := (requests (entryOf s stack))(r \<mapsto> length (promises s))\<rparr>))
        \<lparr>promises := promises s @ [Pending], calls := calls s @ [(stack, r, u)]\<rparr>,
       Await r (length (promises s)))"
    using own nb nl un ok cold u rq cp
    by (simp add: getAndCacheGlyphsStart_def remoteStart_def Let_def truthy_def)
  then show ?thesis by (simp add: step_def)
qed

lemma cold_lookup_join:
  assumes own: "\<not> inheritedKey stack"
    and rg: "rangeOf gid = Some r"
    and nb: "trim gid \<noteq> []"
    and nl: "\<not> doesSegmentSupportLocalGlyph (localIdeographFontFamily s) gid"
    and un: "readGlyph (glyphs (entryOf s stack)) gid = Undefined"
    and ok: "r * 256 \<le> 65535"
    and cold: "ranges (entryOf s stack) r \<noteq> Some True"
    and u: "url s = Some u" "u \<noteq> []"
    and rq: "requests (entryOf s stack) r = Some h"
  shows "step draw s (Lookup stack gid) = s\<lparr>waiting := waiting s @ [(stack, gid, r, h)]\<rparr>"
proof -
  from rg obtain cp where cp: "codePointAt0 gid = Some cp" "cp div 256 = r"
    by (auto simp: rangeOf_def)
  have same: "putEntry s stack (entryOf s stack) = s"
    using entry_of_request [OF rq] by (rule putEntry_same)
  have "getAndCacheGlyphsStart draw s stack gid = (putEntry s stack (entryOf s stack), Await r h)"
    using own nb nl un ok cold u rq cp
    by (simp add: getAndCacheGlyphsStart_def remoteStart_def Let_def truthy_def)
  then show ?thesis unfolding same by (simp add: step_def)
qed

lemma cold_lookups_join:
  assumes own: "\<not> inheritedKey stack"
    and ok: "r * 256 \<le> 65535"
    and cold: "ranges (entryOf s stack) r \<noteq> Some True"
    and u: "url s = Some u" "u \<noteq> []"
    and rq: "requests (entryOf s stack) r = Some h"
    and ids: "\<forall>gid \<in> set ids. rangeOf gid = Some r \<and> trim gid \<noteq> []
        \<and> \<not> doesSegmentSupportLocalGlyph (localIdeographFontFamily s) gid
        \<and> readGlyph (glyphs (entryOf s stack)) gid = Undefined"
  shows "run draw s (map (Lookup stack) ids)
      = s\<lparr>waiting := waiting s @ map (\<lambda>gid. (stack, gid, r, h)) ids\<rparr>"
  using cold u rq ids
proof (induction ids arbitrary: s)
  case Nil
  show ?case by simp
next
  case (Cons gid ids)
  let ?s1 = "s\<lparr>waiting := waiting s @ [(stack, gid, r, h)]\<rparr>"
  from Cons.prems(5) have g: "rangeOf gid = Some r" "trim gid \<noteq> []"
    "\<not> doesSegmentSupportLocalGlyph (localIdeographFontFamily s) gid"
    "readGlyph (glyphs (entryOf s stack)) gid = Undefined"
    by simp_all
  have st: "step draw s (Lookup stack gid) = ?s1"
    using own g ok Cons.prems(1,2,3,4) by (rule cold_lookup_join)
  have 1: "ranges (entryOf ?s1 stack) r \<noteq> Some True" using Cons.prems(1) by simp
  have 2: "url ?s1 = Some u" using Cons.prems(2) by simp
  have 3: "requests (entryOf ?s1 stack) r = Some h" using Cons.prems(4) by simp
  have 4: "\<forall>gid \<in> set ids. rangeOf gid = Some r \<and> trim gid \<noteq> []
        \<and> \<not> doesSegmentSupportLocalGlyph (localIdeographFontFamily ?s1) gid
        \<and> readGlyph (glyphs (entryOf ?s1 stack)) gid = Undefined"
    using Cons.prems(5) by simp
  from Cons.IH [OF 1 2 Cons.prems(3) 3 4]
  have "run draw ?s1 (map (Lookup stack) ids)
      = ?s1\<lparr>waiting := waiting ?s1 @ map (\<lambda>gid. (stack, gid, r, h)) ids\<rparr>" .
  then show ?case by (simp add: st)
qed

lemma cold_lookups:
  assumes own: "\<not> inheritedKey stack"
    and ok: "r * 256 \<le> 65535"
    and cold: "ranges (entryOf s stack) r \<noteq> Some True"
    and u: "url s = Some u" "u \<noteq> []"
    and ne: "ids \<noteq> []"
    and ids: "\<forall>gid \<in> set ids. rangeOf gid = Some r \<and> trim gid \<noteq> []
        \<and> \<not> doesSegmentSupportLocalGlyph (localIdeographFontFamily s) gid
        \<and> readGlyph (glyphs (entryOf s stack)) gid = Undefined"
  shows "\<exists>h. requests (entryOf (run draw s (map (Lookup stack) ids)) stack) r = Some h
      \<and> waiting (run draw s (map (Lookup stack) ids))
          = waiting s @ map (\<lambda>gid. (stack, gid, r, h)) ids
      \<and> (case requests (entryOf s stack) r of
            Some h0 \<Rightarrow> h = h0 \<and> calls (run draw s (map (Lookup stack) ids)) = calls s
          | None \<Rightarrow> h = length (promises s)
              \<and> calls (run draw s (map (Lookup stack) ids)) = calls s @ [(stack, r, u)])"
proof (cases "requests (entryOf s stack) r")
  case (Some h)
  from cold_lookups_join [OF own ok cold u Some ids, of draw] Some
  show ?thesis by (intro exI [of _ h]) simp
next
  case None
  from ne obtain gid rest where e: "ids = gid # rest" by (cases ids) auto
  let ?n = "length (promises s)"
  let ?s1 = "(putEntry s stack ((entryOf s stack)\<lparr>requests := (requests (entryOf s stack))(r \<mapsto> ?n)\<rparr>))
        \<lparr>promises := promises s @ [Pending], calls := calls s @ [(stack, r, u)],
         waiting := waiting s @ [(stack, gid, r, ?n)]\<rparr>"
  from ids e have g: "rangeOf gid = Some r" "trim gid \<noteq> []"
    "\<not> doesSegmentSupportLocalGlyph (localIdeographFontFamily s) gid"
    "readGlyph (glyphs (entryOf s stack)) gid = Undefined"
    by simp_all
  have st: "step draw s (Lookup stack gid) = ?s1"
    using own g ok cold u None by (rule cold_lookup_fetch)
  have 1: "ranges (entryOf ?s1 stack) r \<noteq> Some True" using cold by simp
  have 2: "url ?s1 = Some u" using u(1) by simp
  have 3: "requests (entryOf ?s1 stack) r = Some ?n" by simp
  have 4: "\<forall>gid \<in> set rest. rangeOf gid = Some r \<and> trim gid \<noteq> []
        \<and> \<not> doesSegmentSupportLocalGlyph (localIdeographFontFamily ?s1) gid
        \<and> readGlyph (glyphs (entryOf ?s1 stack)) gid = Undefined"
    using ids e by simp
  from cold_lookups_join [OF own ok 1 2 u(2) 3 4, of draw]
  have r: "run draw s (map (Lookup stack) ids)
      = ?s1\<lparr>waiting := waiting ?s1 @ map (\<lambda>gid. (stack, gid, r, ?n)) rest\<rparr>"
    by (simp add: e st)
  show ?thesis unfolding r using None e by (intro exI [of _ ?n]) simp
qed

lemma resume_fulfilled:
  assumes k: "k < length (waiting s)" and w: "waiting s ! k = (st, gid, r, h)"
    and h: "h < length (promises s)" and p: "promises s ! h = Fulfilled response"
    and e: "entries s st = Some (entryOf s st)"
  shows "step draw s (Resume k) =
      (putEntry s st ((entryOf s st)\<lparr>glyphs := glyphs (entryOf s st) ++ response,
                                     ranges := (ranges (entryOf s st))(r \<mapsto> True)\<rparr>))
        \<lparr>waiting := take k (waiting s) @ drop (Suc k) (waiting s),
         finished := finished s @
           [(st, gid, Return (case readGlyph response gid of
                                Glyph g \<Rightarrow> Glyph g | Inherited \<Rightarrow> Inherited | _ \<Rightarrow> Null))]\<rparr>"
  using k w h p e by (simp add: step_def getAndCacheGlyphsResume_def Let_def)

subsection \<open>One fetch per range\<close>

text \<open>
  C4, as amended. In every run of a manager, at most one \<open>loadGlyphRange\<close> call is ever
  made for a stack and a range. Every suspended lookup is a lookup of an id of its range and
  awaits the promise of the one call made for its stack and range; when it goes on it
  observes what became of that promise: nothing while the promise is pending, a
  \<open>SourceFetchError\<close> when it was rejected, and after a response the value
  \<open>response[id] || null\<close>, with the response copied into \<open>glyphs\<close> and the range marked.
  And any number of lookups in a row, for a stack that is not named like a property of
  \<open>Object.prototype\<close> and for ids of one range below 256 that is not marked, ids that are
  not blank, not made locally and \<open>undefined\<close> in \<open>glyphs\<close>, with a url set, are all
  suspended on one and the same request of the range: the one that \<open>requests\<close> held
  already, and then no call is made, or else the one new call.
\<close>

theorem one_fetch_per_range:
  assumes s: "s = run draw (newGlyphManager family) evs"
  shows "fetchCount s stack r \<le> 1
    \<and> (\<forall>k < length (waiting s). \<forall>st gid rg h. waiting s ! k = (st, gid, rg, h) \<longrightarrow>
          rangeOf gid = Some rg \<and> requests (entryOf s st) rg = Some h \<and> fetchCount s st rg = 1
          \<and> h < length (promises s) \<and> h < length (calls s)
          \<and> fst (calls s ! h) = st \<and> fst (snd (calls s ! h)) = rg
          \<and> (case promises s ! h of
                Pending \<Rightarrow> step draw s (Resume k) = s
              | Rejected \<Rightarrow>
                  step draw s (Resume k) =
                    s\<lparr>waiting := take k (waiting s) @ drop (Suc k) (waiting s),
                      finished := finished s @ [(st, gid, Throw SourceFetchError)]\<rparr>
              | Fulfilled response \<Rightarrow>
                  step draw s (Resume k) =
                    (putEntry s st ((entryOf s st)\<lparr>glyphs := glyphs (entryOf s st) ++ response,
                                                   ranges := (ranges (entryOf s st))(rg \<mapsto> True)\<rparr>))
                      \<lparr>waiting := take k (waiting s) @ drop (Suc k) (waiting s),
                       finished := finished s @
                         [(st, gid, Return (case readGlyph response gid of
                                              Glyph g \<Rightarrow> Glyph g
                                            | Inherited \<Rightarrow> Inherited
                                            | _ \<Rightarrow> Null))]\<rparr>))
    \<and> (\<forall>ids u. \<not> inheritedKey stack \<and> r * 256 \<le> 65535
            \<and> ranges (entryOf s stack) r \<noteq> Some True \<and> url s = Some u \<and> u \<noteq> [] \<and> ids \<noteq> []
            \<and> (\<forall>gid \<in> set ids. rangeOf gid = Some r \<and> trim gid \<noteq> []
                  \<and> \<not> doesSegmentSupportLocalGlyph (localIdeographFontFamily s) gid
                  \<and> readGlyph (glyphs (entryOf s stack)) gid = Undefined)
          \<longrightarrow> (\<exists>h. requests (entryOf (run draw s (map (Lookup stack) ids)) stack) r = Some h
                 \<and> waiting (run draw s (map (Lookup stack) ids))
                     = waiting s @ map (\<lambda>gid. (stack, gid, r, h)) ids
                 \<and> fetchCount (run draw s (map (Lookup stack) ids)) stack r = 1
                 \<and> (case requests (entryOf s stack) r of
                       Some h0 \<Rightarrow> h = h0 \<and> calls (run draw s (map (Lookup stack) ids)) = calls s
                     | None \<Rightarrow> h = length (promises s)
                         \<and> calls (run draw s (map (Lookup stack) ids))
                             = calls s @ [(stack, r, u)])))"
proof -
  have c: "consistent s" unfolding s by (rule consistent_reachable)
  have 1: "fetchCount s stack r \<le> 1" using consistentD(3) [OF c, of stack r] by simp
  have 2: "rangeOf gid = Some rg \<and> requests (entryOf s st) rg = Some h \<and> fetchCount s st rg = 1
          \<and> h < length (promises s) \<and> h < length (calls s)
          \<and> fst (calls s ! h) = st \<and> fst (snd (calls s ! h)) = rg
          \<and> (case promises s ! h of
                Pending \<Rightarrow> step draw s (Resume k) = s
              | Rejected \<Rightarrow>
                  step draw s (Resume k) =
                    s\<lparr>waiting := take k (waiting s) @ drop (Suc k) (waiting s),
                      finished := finished s @ [(st, gid, Throw SourceFetchError)]\<rparr>
              | Fulfilled response \<Rightarrow>
                  step draw s (Resume k) =
                    (putEntry s st ((entryOf s st)\<lparr>glyphs := glyphs (entryOf s st) ++ response,
                                                   ranges := (ranges (entryOf s st))(rg \<mapsto> True)\<rparr>))
                      \<lparr>waiting := take k (waiting s) @ drop (Suc k) (waiting s),
                       finished := finished s @
                         [(st, gid, Return (case readGlyph response gid of
                                              Glyph g \<Rightarrow> Glyph g
                                            | Inherited \<Rightarrow> Inherited
                                            | _ \<Rightarrow> Null))]\<rparr>)"
    if k: "k < length (waiting s)" and w: "waiting s ! k = (st, gid, rg, h)" for k st gid rg h
  proof -
    have m: "(st, gid, rg, h) \<in> set (waiting s)" using k w by (metis nth_mem)
    from consistentD(4) [OF c m] have rq: "requests (entryOf s st) rg = Some h" .
    from consistentD(6) [OF c m] have ro: "rangeOf gid = Some rg" .
    from consistentD(2) [OF c rq] consistentD(1) [OF c]
    have hh: "h < length (promises s)" "h < length (calls s)"
      "fst (calls s ! h) = st" "fst (snd (calls s ! h)) = rg"
      by simp_all
    from consistentD(3) [OF c, of st rg] rq have fc: "fetchCount s st rg = 1" by simp
    have res: "case promises s ! h of
                Pending \<Rightarrow> step draw s (Resume k) = s
              | Rejected \<Rightarrow>
                  step draw s (Resume k) =
                    s\<lparr>waiting := take k (waiting s) @ drop (Suc k) (waiting s),
                      finished := finished s @ [(st, gid, Throw SourceFetchError)]\<rparr>
              | Fulfilled response \<Rightarrow>
                  step draw s (Resume k) =
                    (putEntry s st ((entryOf s st)\<lparr>glyphs := glyphs (entryOf s st) ++ response,
                                                   ranges := (ranges (entryOf s st))(rg \<mapsto> True)\<rparr>))
                      \<lparr>waiting := take k (waiting s) @ drop (Suc k) (waiting s),
                       finished := finished s @
                         [(st, gid, Return (case readGlyph response gid of
                                              Glyph g \<Rightarrow> Glyph g
                                            | Inherited \<Rightarrow> Inherited
                                            | _ \<Rightarrow> Null))]\<rparr>"
    proof (cases "promises s ! h")
      case Pending
      with k w hh(1) show ?thesis by (simp add: step_def getAndCacheGlyphsResume_def)
    next
      case Rejected
      with k w hh(1) show ?thesis by (simp add: step_def getAndCacheGlyphsResume_def)
    next
      case (Fulfilled response)
      from resume_fulfilled [OF k w hh(1) Fulfilled entry_of_request [OF rq]] Fulfilled
      show ?thesis by simp
    qed
    from ro rq fc hh res show ?thesis by (intro conjI)
  qed
  have 3: "\<exists>h. requests (entryOf (run draw s (map (Lookup stack) ids)) stack) r = Some h
                 \<and> waiting (run draw s (map (Lookup stack) ids))
                     = waiting s @ map (\<lambda>gid. (stack, gid, r, h)) ids
                 \<and> fetchCount (run draw s (map (Lookup stack) ids)) stack r = 1
                 \<and> (case requests (entryOf s stack) r of
                       Some h0 \<Rightarrow> h = h0 \<and> calls (run draw s (map (Lookup stack) ids)) = calls s
                     | None \<Rightarrow> h = length (promises s)
                         \<and> calls (run draw s (map (Lookup stack) ids))
                             = calls s @ [(stack, r, u)])"
    if own: "\<not> inheritedKey stack" and ok: "r * 256 \<le> 65535"
      and cold: "ranges (entryOf s stack) r \<noteq> Some True"
      and u: "url s = Some u" "u \<noteq> []" and ne: "ids \<noteq> []"
      and ids: "\<forall>gid \<in> set ids. rangeOf gid = Some r \<and> trim gid \<noteq> []
                  \<and> \<not> doesSegmentSupportLocalGlyph (localIdeographFontFamily s) gid
                  \<and> readGlyph (glyphs (entryOf s stack)) gid = Undefined"
    for ids u
  proof -
    let ?s' = "run draw s (map (Lookup stack) ids)"
    have c': "consistent ?s'" using c by (rule consistent_run)
    from cold_lookups [OF own ok cold u ne ids, of draw] obtain h where
      h: "requests (entryOf ?s' stack) r = Some h"
      "waiting ?s' = waiting s @ map (\<lambda>gid. (stack, gid, r, h)) ids"
      "case requests (entryOf s stack) r of
            Some h0 \<Rightarrow> h = h0 \<and> calls ?s' = calls s
          | None \<Rightarrow> h = length (promises s) \<and> calls ?s' = calls s @ [(stack, r, u)]"
      by blast
    from consistentD(3) [OF c', of stack r] h(1) have "fetchCount ?s' stack r = 1" by simp
    with h show ?thesis by (intro exI [of _ h] conjI)
  qed
  have all2: "\<forall>k < length (waiting s). \<forall>st gid rg h. waiting s ! k = (st, gid, rg, h) \<longrightarrow>
          rangeOf gid = Some rg \<and> requests (entryOf s st) rg = Some h \<and> fetchCount s st rg = 1
          \<and> h < length (promises s) \<and> h < length (calls s)
          \<and> fst (calls s ! h) = st \<and> fst (snd (calls s ! h)) = rg
          \<and> (case promises s ! h of
                Pending \<Rightarrow> step draw s (Resume k) = s
              | Rejected \<Rightarrow>
                  step draw s (Resume k) =
                    s\<lparr>waiting := take k (waiting s) @ drop (Suc k) (waiting s),
                      finished := finished s @ [(st, gid, Throw SourceFetchError)]\<rparr>
              | Fulfilled response \<Rightarrow>
                  step draw s (Resume k) =
                    (putEntry s st ((entryOf s st)\<lparr>glyphs := glyphs (entryOf s st) ++ response,
                                                   ranges := (ranges (entryOf s st))(rg \<mapsto> True)\<rparr>))
                      \<lparr>waiting := take k (waiting s) @ drop (Suc k) (waiting s),
                       finished := finished s @
                         [(st, gid, Return (case readGlyph response gid of
                                              Glyph g \<Rightarrow> Glyph g
                                            | Inherited \<Rightarrow> Inherited
                                            | _ \<Rightarrow> Null))]\<rparr>)"
    using 2 by blast
  have all3: "\<forall>ids u. \<not> inheritedKey stack \<and> r * 256 \<le> 65535
            \<and> ranges (entryOf s stack) r \<noteq> Some True \<and> url s = Some u \<and> u \<noteq> [] \<and> ids \<noteq> []
            \<and> (\<forall>gid \<in> set ids. rangeOf gid = Some r \<and> trim gid \<noteq> []
                  \<and> \<not> doesSegmentSupportLocalGlyph (localIdeographFontFamily s) gid
                  \<and> readGlyph (glyphs (entryOf s stack)) gid = Undefined)
          \<longrightarrow> (\<exists>h. requests (entryOf (run draw s (map (Lookup stack) ids)) stack) r = Some h
                 \<and> waiting (run draw s (map (Lookup stack) ids))
                     = waiting s @ map (\<lambda>gid. (stack, gid, r, h)) ids
                 \<and> fetchCount (run draw s (map (Lookup stack) ids)) stack r = 1
                 \<and> (case requests (entryOf s stack) r of
                       Some h0 \<Rightarrow> h = h0 \<and> calls (run draw s (map (Lookup stack) ids)) = calls s
                     | None \<Rightarrow> h = length (promises s)
                         \<and> calls (run draw s (map (Lookup stack) ids))
                             = calls s @ [(stack, r, u)]))"
    using 3 by blast
  from 1 all2 all3 show ?thesis by (intro conjI)
qed

theorem one_fetch_per_range_witness:
  "waiting (run blankDraw (run blankDraw (newGlyphManager None)
        [SetURL (Some [0x75]), Lookup [0x41] [0x61]]) (map (Lookup [0x41]) [[0x62], [0x63]]))
     = [([0x41], [0x61], 0, 0), ([0x41], [0x62], 0, 0), ([0x41], [0x63], 0, 0)]
   \<and> fetchCount (run blankDraw (run blankDraw (newGlyphManager None)
        [SetURL (Some [0x75]), Lookup [0x41] [0x61]]) (map (Lookup [0x41]) [[0x62], [0x63]])) [0x41] 0
     = 1
   \<and> finished (run blankDraw (run blankDraw (newGlyphManager None)
        [SetURL (Some [0x75]), Lookup [0x41] [0x61], Lookup [0x41] [0x62],
         Fulfil 0 [[0x61] \<mapsto> Some (sampleGlyph [0x61])]]) [Resume 1])
     = [([0x41], [0x62], Return Null)]
   \<and> finished (run blankDraw (run blankDraw (newGlyphManager None)
        [SetURL (Some [0x75]), Lookup [0x41] [0x61], Lookup [0x41] [0x62],
         Fulfil 0 [[0x61] \<mapsto> Some (sampleGlyph [0x61])]]) [Resume 0])
     = [([0x41], [0x61], Return (Glyph (sampleGlyph [0x61])))]"
proof -
  define s where "s = run blankDraw (newGlyphManager None) [SetURL (Some [0x75]), Lookup [0x41] [0x61]]"
  define t where "t = run blankDraw (newGlyphManager None)
        [SetURL (Some [0x75]), Lookup [0x41] [0x61], Lookup [0x41] [0x62],
         Fulfil 0 [[0x61] \<mapsto> Some (sampleGlyph [0x61])]]"
  have ws: "waiting s = [([0x41], [0x61], 0, 0)]" and rq: "requests (entryOf s [0x41]) 0 = Some 0"
    and cold: "ranges (entryOf s [0x41]) 0 \<noteq> Some True" and u: "url s = Some [0x75]"
    and fam: "localIdeographFontFamily s = None"
    and gl: "glyphs (entryOf s [0x41]) = Map.empty"
    unfolding s_def by (simp_all add: run_eval)
  have ids: "\<forall>gid \<in> set [[0x62], [0x63 :: 16 word]]. rangeOf gid = Some 0 \<and> trim gid \<noteq> []
                  \<and> \<not> doesSegmentSupportLocalGlyph (localIdeographFontFamily s) gid
                  \<and> readGlyph (glyphs (entryOf s [0x41])) gid = Undefined"
    unfolding fam gl
    by (simp add: rangeOf_def trim_def isWhiteSpace_def doesSegmentSupportLocalGlyph_def truthy_def
        readGlyph_def)
  note A = one_fetch_per_range [where s = s and stack = "[0x41]" and r = 0, OF s_def]
  from A [THEN conjunct2, THEN conjunct2, rule_format,
      where ids = "[[0x62], [0x63]]" and u = "[0x75]"] cold u ids
  obtain h where h: "requests (entryOf (run blankDraw s (map (Lookup [0x41]) [[0x62], [0x63]])) [0x41]) 0
        = Some h"
    "waiting (run blankDraw s (map (Lookup [0x41]) [[0x62], [0x63]]))
        = waiting s @ map (\<lambda>gid. ([0x41], gid, 0, h)) [[0x62], [0x63]]"
    "fetchCount (run blankDraw s (map (Lookup [0x41]) [[0x62], [0x63]])) [0x41] 0 = 1"
    "case requests (entryOf s [0x41]) 0 of
       Some h0 \<Rightarrow> h = h0 \<and> calls (run blankDraw s (map (Lookup [0x41]) [[0x62], [0x63]])) = calls s
     | None \<Rightarrow> h = length (promises s)
         \<and> calls (run blankDraw s (map (Lookup [0x41]) [[0x62], [0x63]])) = calls s @ [([0x41], 0, [0x75])]"
    by auto
  from h(4) have h0: "h = 0" unfolding rq by simp
  have w1: "waiting (run blankDraw s (map (Lookup [0x41]) [[0x62], [0x63]]))
     = [([0x41], [0x61], 0, 0), ([0x41], [0x62], 0, 0), ([0x41], [0x63], 0, 0)]"
    unfolding h(2) ws h0 by simp
  have wt: "waiting t = [([0x41], [0x61], 0, 0), ([0x41], [0x62], 0, 0)]"
    and pt: "promises t = [Fulfilled [[0x61] \<mapsto> Some (sampleGlyph [0x61])]]"
    and ft: "finished t = []"
    unfolding t_def by (simp_all add: run_eval)
  note B = one_fetch_per_range [where s = t and stack = "[0x41]" and r = 0, OF t_def,
      THEN conjunct2, THEN conjunct1, rule_format]
  have k1: "1 < length (waiting t)" and k0: "0 < length (waiting t)"
    and e1: "waiting t ! 1 = ([0x41], [0x62], 0, 0)" and e0: "waiting t ! 0 = ([0x41], [0x61], 0, 0)"
    unfolding wt by simp_all
  from B [OF k1 e1]
  have "finished (step blankDraw t (Resume 1)) = [([0x41], [0x62], Return Null)]"
    unfolding pt by (simp add: ft readGlyph_def)
  then have r1: "finished (run blankDraw t [Resume 1]) = [([0x41], [0x62], Return Null)]" by simp
  from B [OF k0 e0]
  have "finished (step blankDraw t (Resume 0)) = [([0x41], [0x61], Return (Glyph (sampleGlyph [0x61])))]"
    unfolding pt by (simp add: ft readGlyph_def)
  then have r0: "finished (run blankDraw t [Resume 0])
      = [([0x41], [0x61], Return (Glyph (sampleGlyph [0x61])))]" by simp
  from w1 h(3) r1 r0 show ?thesis unfolding s_def t_def by (intro conjI)
qed

text \<open>
  C4 as stated fails for a stack named like a property of \<open>Object.prototype\<close>: with a url
  set, the lookups of the letters a and b for the stack \<open>constructor\<close>, both of range 0,
  make no \<open>loadGlyphRange\<close> call and await nothing; each throws a \<open>TypeError\<close>.
\<close>

theorem inherited_stack_lookups_make_no_fetch:
  "rangeOf [0x61] = Some 0 \<and> rangeOf [0x62] = Some 0
   \<and> calls (run blankDraw (newGlyphManager None)
        (SetURL (Some [0x75]) # getGlyphsLookups [(ascii ''constructor'', [[0x61], [0x62]])])) = []
   \<and> waiting (run blankDraw (newGlyphManager None)
        (SetURL (Some [0x75]) # getGlyphsLookups [(ascii ''constructor'', [[0x61], [0x62]])])) = []
   \<and> finished (run blankDraw (newGlyphManager None)
        (SetURL (Some [0x75]) # getGlyphsLookups [(ascii ''constructor'', [[0x61], [0x62]])]))
      = [(ascii ''constructor'', [0x61], Throw TypeError),
         (ascii ''constructor'', [0x62], Throw TypeError)]"
  by (simp add: rangeOf_def step_def getAndCacheGlyphsStart_def newGlyphManager_def
      getGlyphsLookups_def inheritedKey_constructor)

subsection \<open>Resolved ranges\<close>

lemma resolved_lookup_no_fetch:
  assumes rg: "rangeOf gid = Some r"
    and t: "ranges (entryOf s stack) r = Some True"
  shows "calls (step draw s (Lookup stack gid)) = calls s
     \<and> promises (step draw s (Lookup stack gid)) = promises s
     \<and> waiting (step draw s (Lookup stack gid)) = waiting s"
proof -
  obtain s' out where st: "getAndCacheGlyphsStart draw s stack gid = (s', out)"
    by (cases "getAndCacheGlyphsStart draw s stack gid")
  have own: "\<not> (entries s stack = None \<and> inheritedKey stack)"
    using entry_of_range [OF t] by simp
  have na: "out \<noteq> Await r' h" for r' h
  proof
    assume "out = Await r' h"
    from start_await [OF st [unfolded this]] rg t show False by (auto simp: rangeOf_def)
  qed
  with start_effect [OF st own] obtain e' where e: "s' = putEntry s stack e'" by blast
  show ?thesis
  proof (cases out)
    case (Await r' h)
    with na show ?thesis by blast
  next
    case (Return g)
    with st e show ?thesis by (simp add: step_def)
  next
    case (Throw x)
    with st e show ?thesis by (simp add: step_def)
  qed
qed

text \<open>
  C2, as amended: once a range of a stack is marked in \<open>ranges\<close>, the mark stays; from then
  on the request of the range is fulfilled and every id that its response holds has an
  entry in \<open>glyphs\<close> (a glyph or \<open>null\<close>); and no later lookup of an id of that range
  starts a \<open>loadGlyphRange\<close> call or is suspended: the one call made for the range remains
  the only one.
\<close>

theorem resolved_range_is_never_fetched_again:
  assumes s: "s = run draw (newGlyphManager family) evs"
    and t: "ranges (entryOf s stack) r = Some True"
  shows "\<forall>evs'. ranges (entryOf (run draw s evs') stack) r = Some True
      \<and> (\<exists>h resp. requests (entryOf (run draw s evs') stack) r = Some h
            \<and> promises (run draw s evs') ! h = Fulfilled resp
            \<and> dom resp \<subseteq> dom (glyphs (entryOf (run draw s evs') stack)))
      \<and> fetchCount (run draw s evs') stack r = 1
      \<and> (\<forall>gid. rangeOf gid = Some r \<longrightarrow>
            calls (step draw (run draw s evs') (Lookup stack gid)) = calls (run draw s evs')
            \<and> promises (step draw (run draw s evs') (Lookup stack gid)) = promises (run draw s evs')
            \<and> waiting (step draw (run draw s evs') (Lookup stack gid)) = waiting (run draw s evs'))"
proof
  fix evs'
  let ?s' = "run draw s evs'"
  have c: "consistent s" unfolding s by (rule consistent_reachable)
  have c': "consistent ?s'" using c by (rule consistent_run)
  have t': "ranges (entryOf ?s' stack) r = Some True" using t by (rule ranges_run)
  note rq = consistentD(5) [OF c' t']
  then have "requests (entryOf ?s' stack) r \<noteq> None" by auto
  with consistentD(3) [OF c', of stack r] have fc: "fetchCount ?s' stack r = 1" by simp
  have lk: "\<forall>gid. rangeOf gid = Some r \<longrightarrow>
            calls (step draw ?s' (Lookup stack gid)) = calls ?s'
            \<and> promises (step draw ?s' (Lookup stack gid)) = promises ?s'
            \<and> waiting (step draw ?s' (Lookup stack gid)) = waiting ?s'"
    using resolved_lookup_no_fetch [OF _ t'] by blast
  from t' rq fc lk
  show "ranges (entryOf ?s' stack) r = Some True
      \<and> (\<exists>h resp. requests (entryOf ?s' stack) r = Some h
            \<and> promises ?s' ! h = Fulfilled resp
            \<and> dom resp \<subseteq> dom (glyphs (entryOf ?s' stack)))
      \<and> fetchCount ?s' stack r = 1
      \<and> (\<forall>gid. rangeOf gid = Some r \<longrightarrow>
            calls (step draw ?s' (Lookup stack gid)) = calls ?s'
            \<and> promises (step draw ?s' (Lookup stack gid)) = promises ?s'
            \<and> waiting (step draw ?s' (Lookup stack gid)) = waiting ?s')"
    by (intro conjI)
qed

theorem resolved_range_is_never_fetched_again_witness:
  "ranges (entryOf (run blankDraw (newGlyphManager None)
      [SetURL (Some [0x75]), Lookup [0x41] [0x61], Fulfil 0 [[0x62] \<mapsto> None], Resume 0]) [0x41]) 0
      = Some True
   \<and> rangeOf [0x63] = Some 0
   \<and> calls (step blankDraw (run blankDraw (run blankDraw (newGlyphManager None)
      [SetURL (Some [0x75]), Lookup [0x41] [0x61], Fulfil 0 [[0x62] \<mapsto> None], Resume 0])
        [Lookup [0x41] [0x62]]) (Lookup [0x41] [0x63]))
      = calls (run blankDraw (run blankDraw (newGlyphManager None)
      [SetURL (Some [0x75]), Lookup [0x41] [0x61], Fulfil 0 [[0x62] \<mapsto> None], Resume 0])
        [Lookup [0x41] [0x62]])
   \<and> fetchCount (run blankDraw (run blankDraw (newGlyphManager None)
      [SetURL (Some [0x75]), Lookup [0x41] [0x61], Fulfil 0 [[0x62] \<mapsto> None], Resume 0])
        [Lookup [0x41] [0x62]]) [0x41] 0 = 1"
proof -
  define s where "s = run blankDraw (newGlyphManager None)
      [SetURL (Some [0x75]), Lookup [0x41] [0x61], Fulfil 0 [[0x62] \<mapsto> None], Resume 0]"
  have t: "ranges (entryOf s [0x41]) 0 = Some True" unfolding s_def by (simp add: run_eval)
  have rg: "rangeOf [0x63] = Some 0" by (simp add: rangeOf_def)
  note T = resolved_range_is_never_fetched_again [OF s_def t, rule_format, of "[Lookup [0x41] [0x62]]"]
  from T [THEN conjunct2, THEN conjunct2, THEN conjunct2, rule_format, OF rg]
  have a: "calls (step blankDraw (run blankDraw s [Lookup [0x41] [0x62]]) (Lookup [0x41] [0x63]))
      = calls (run blankDraw s [Lookup [0x41] [0x62]])"
    by (rule conjunct1)
  from T [THEN conjunct2, THEN conjunct2, THEN conjunct1]
  have b: "fetchCount (run blankDraw s [Lookup [0x41] [0x62]]) [0x41] 0 = 1" .
  from t rg a b show ?thesis unfolding s_def by (intro conjI)
qed

text \<open>
  C2 as stated fails: after the range of the letter a was loaded with a response that does
  not hold it, the range is marked, and \<open>glyphs\<close> has no entry for the letter.
\<close>

theorem resolved_range_without_entry:
  "ranges (entryOf (run blankDraw (newGlyphManager None)
      [SetURL (Some [0x75]), Lookup [0x41] [0x61], Fulfil 0 Map.empty, Resume 0]) [0x41]) 0 = Some True
   \<and> codePointAt0 [0x61] = Some 97 \<and> (97 :: nat) div 256 = 0
   \<and> glyphs (entryOf (run blankDraw (newGlyphManager None)
      [SetURL (Some [0x75]), Lookup [0x41] [0x61], Fulfil 0 Map.empty, Resume 0]) [0x41]) [0x61] = None"
  by (simp add: run_eval)



subsection \<open>A failed range request\<close>

text \<open>
  C3, as amended: when the request of a range has failed, every lookup that awaits the
  range awaits that request and ends with \<open>SourceFetchError\<close>, leaving the entries as they
  are; the range is never marked; and the failed request stays in \<open>requests\<close>: no run
  makes a second \<open>loadGlyphRange\<close> call for the range, and a later lookup that is suspended
  on the range awaits the same failed request.
\<close>

theorem failed_request_stays_recorded:
  assumes s: "s = run draw (newGlyphManager family) evs"
    and rq: "requests (entryOf s stack) r = Some h"
    and rej: "promises s ! h = Rejected"
  shows "(\<forall>k < length (waiting s). \<forall>gid h'. waiting s ! k = (stack, gid, r, h') \<longrightarrow>
            h' = h
            \<and> step draw s (Resume k) =
                s\<lparr>waiting := take k (waiting s) @ drop (Suc k) (waiting s),
                  finished := finished s @ [(stack, gid, Throw SourceFetchError)]\<rparr>)
    \<and> (\<forall>evs'. requests (entryOf (run draw s evs') stack) r = Some h
            \<and> promises (run draw s evs') ! h = Rejected
            \<and> fetchCount (run draw s evs') stack r = 1
            \<and> ranges (entryOf (run draw s evs') stack) r \<noteq> Some True
            \<and> (\<forall>w \<in> set (waiting (run draw s evs')).
                  fst w = stack \<and> fst (snd (snd w)) = r \<longrightarrow> snd (snd (snd w)) = h))"
proof -
  have c: "consistent s" unfolding s by (rule consistent_reachable)
  from consistentD(2) [OF c rq] consistentD(1) [OF c] have hl: "h < length (promises s)" by simp
  have a: "h' = h \<and> step draw s (Resume k) =
                s\<lparr>waiting := take k (waiting s) @ drop (Suc k) (waiting s),
                  finished := finished s @ [(stack, gid, Throw SourceFetchError)]\<rparr>"
    if k: "k < length (waiting s)" and w: "waiting s ! k = (stack, gid, r, h')" for k gid h'
  proof -
    have "(stack, gid, r, h') \<in> set (waiting s)" using k w by (metis nth_mem)
    from consistentD(4) [OF c this] rq have e: "h' = h" by simp
    with k w hl rej show ?thesis by (simp add: step_def getAndCacheGlyphsResume_def)
  qed
  have b: "requests (entryOf (run draw s evs') stack) r = Some h
            \<and> promises (run draw s evs') ! h = Rejected
            \<and> fetchCount (run draw s evs') stack r = 1
            \<and> ranges (entryOf (run draw s evs') stack) r \<noteq> Some True
            \<and> (\<forall>w \<in> set (waiting (run draw s evs')).
                  fst w = stack \<and> fst (snd (snd w)) = r \<longrightarrow> snd (snd (snd w)) = h)" for evs'
  proof -
    let ?s' = "run draw s evs'"
    have c': "consistent ?s'" using c by (rule consistent_run)
    have rq': "requests (entryOf ?s' stack) r = Some h" using rq by (rule requests_run)
    have rej': "promises ?s' ! h = Rejected"
      using promises_run [OF hl, of draw evs'] rej by simp
    have fc: "fetchCount ?s' stack r = 1" using consistentD(3) [OF c', of stack r] rq' by simp
    have nr: "ranges (entryOf ?s' stack) r \<noteq> Some True"
    proof
      assume "ranges (entryOf ?s' stack) r = Some True"
      from consistentD(5) [OF c' this] rq' rej' show False by auto
    qed
    have ws: "snd (snd (snd w)) = h"
      if "w \<in> set (waiting ?s')" "fst w = stack \<and> fst (snd (snd w)) = r" for w
    proof -
      obtain st g r' h' where e: "w = (st, g, r', h')" by (cases w)
      with that have "(stack, g, r, h') \<in> set (waiting ?s')" by simp
      from consistentD(4) [OF c' this] rq' e show ?thesis by simp
    qed
    from rq' rej' fc nr ws show ?thesis by (simp del: One_nat_def)
  qed
  from a b show ?thesis by blast
qed

theorem failed_request_stays_recorded_witness:
  "requests (entryOf (run blankDraw (newGlyphManager None)
        [SetURL (Some [0x75]), Lookup [0x41] [0x61], Reject 0]) [0x41]) 0 = Some 0
   \<and> promises (run blankDraw (newGlyphManager None)
        [SetURL (Some [0x75]), Lookup [0x41] [0x61], Reject 0]) ! 0 = Rejected
   \<and> finished (step blankDraw (run blankDraw (newGlyphManager None)
        [SetURL (Some [0x75]), Lookup [0x41] [0x61], Reject 0]) (Resume 0))
      = [([0x41], [0x61], Throw SourceFetchError)]
   \<and> fetchCount (run blankDraw (run blankDraw (newGlyphManager None)
        [SetURL (Some [0x75]), Lookup [0x41] [0x61], Reject 0])
          [Resume 0, Lookup [0x41] [0x62]]) [0x41] 0 = 1"
proof -
  let ?s = "run blankDraw (newGlyphManager None)
        [SetURL (Some [0x75]), Lookup [0x41] [0x61], Reject 0]"
  have rq: "requests (entryOf ?s [0x41]) 0 = Some 0" by (simp add: run_eval)
  have rej: "promises ?s ! 0 = Rejected" by (simp add: run_eval)
  have k: "0 < length (waiting ?s)" and w: "waiting ?s ! 0 = ([0x41], [0x61], 0, 0)"
    and f: "finished ?s = []"
    by (simp_all add: run_eval)
  note T = failed_request_stays_recorded [OF refl rq rej]
  from T [THEN conjunct1, rule_format, OF k w]
  have "finished (step blankDraw ?s (Resume 0)) = [([0x41], [0x61], Throw SourceFetchError)]"
    using f by simp
  moreover from T [THEN conjunct2, rule_format, of "[Resume 0, Lookup [0x41] [0x62]]"]
  have "fetchCount (run blankDraw ?s [Resume 0, Lookup [0x41] [0x62]]) [0x41] 0 = 1"
    by (simp only:)
  ultimately show ?thesis using rq rej by (intro conjI)
qed

text \<open>
  C3 as stated fails: after the request of range 0 was rejected and the failure was
  delivered, a new lookup of the letter a makes no second \<open>loadGlyphRange\<close> call; it is
  suspended on the old promise 0, which is rejected.
\<close>

theorem failed_request_is_not_retried:
  "calls (run blankDraw (newGlyphManager None)
      [SetURL (Some [0x75]), Lookup [0x41] [0x61], Reject 0, Resume 0, Lookup [0x41] [0x61]])
     = [([0x41], 0, [0x75])]
   \<and> waiting (run blankDraw (newGlyphManager None)
      [SetURL (Some [0x75]), Lookup [0x41] [0x61], Reject 0, Resume 0, Lookup [0x41] [0x61]])
     = [([0x41], [0x61], 0, 0)]
   \<and> promises (run blankDraw (newGlyphManager None)
      [SetURL (Some [0x75]), Lookup [0x41] [0x61], Reject 0, Resume 0, Lookup [0x41] [0x61]])
     = [Rejected]"
  by (simp add: run_eval)



subsection \<open>Local synthesis\<close>

lemma trim_nonempty: "\<not> isWhiteSpace u \<Longrightarrow> trim (u # us) \<noteq> []"
  by (simp add: trim_def dropWhile_eq_Nil_conv)

lemmas block_defs = inBlock_def block_Devanagari_def
  block_Bengali_def block_Gujarati_def block_Tamil_def block_Telugu_def block_Tibetan_def
  block_Myanmar_def block_Khmer_def block_CJK_Unified_Ideographs_def
  block_Hangul_Syllables_def block_Hiragana_def block_Katakana_def

lemma eligible_unit_not_white:
  assumes "truthy family \<and>
      (block_Devanagari (Some (unat u)) \<or> block_Bengali (Some (unat u))
       \<or> block_Gujarati (Some (unat u)) \<or> block_Tamil (Some (unat u))
       \<or> block_Telugu (Some (unat u)) \<or> block_Tibetan (Some (unat u))
       \<or> block_Myanmar (Some (unat u)) \<or> block_Khmer (Some (unat u))
       \<or> block_CJK_Unified_Ideographs (Some (unat u)) \<or> block_Hangul_Syllables (Some (unat u))
       \<or> block_Hiragana (Some (unat u)) \<or> block_Katakana (Some (unat u)))"
  shows "\<not> isWhiteSpace u"
proof
  assume "isWhiteSpace u"
  then have "unat u \<in> {9..13} \<union> {0x20, 0xA0, 0x1680} \<union> {0x2000..0x200A}
      \<union> {0x2028, 0x2029, 0x202F, 0x205F, 0x3000, 0xFEFF}"
    unfolding isWhiteSpace_def by (auto simp: word_le_nat_alt)
  with assms show False by (auto simp: block_defs)
qed

lemma local_leading_unit:
  assumes "doesSegmentSupportLocalGlyph family gid"
  shows "\<exists>u us. gid = u # us \<and> \<not> isWhiteSpace u"
proof (cases gid rule: codePointAt0.cases)
  case 1
  with assms show ?thesis
    by (simp add: doesSegmentSupportLocalGlyph_def Let_def block_defs)
next
  case (2 u)
  with assms have "\<not> isWhiteSpace u"
    by (intro eligible_unit_not_white [of family]) (simp add: doesSegmentSupportLocalGlyph_def Let_def)
  with 2 show ?thesis by simp
next
  case (3 u v rest)
  show ?thesis
  proof (cases "isHighSurrogate u \<and> isLowSurrogate v")
    case True
    then have "codePointAt0 gid = Some (pairCodePoint u v)" using 3 by simp
    moreover have "0x10000 \<le> pairCodePoint u v" by (simp add: pairCodePoint_def)
    ultimately show ?thesis using assms
      by (simp add: doesSegmentSupportLocalGlyph_def Let_def block_defs)
  next
    case False
    then have "codePointAt0 gid = Some (unat u)" using 3 by auto
    with assms have "\<not> isWhiteSpace u"
      by (intro eligible_unit_not_white [of family]) (simp add: doesSegmentSupportLocalGlyph_def Let_def)
    with 3 show ?thesis by simp
  qed
qed

lemma local_not_blank: "doesSegmentSupportLocalGlyph family gid \<Longrightarrow> trim gid \<noteq> []"
  using local_leading_unit trim_nonempty by blast


text \<open>
  C7, as amended: when a local font family is configured, the leading code point of the id
  is in an eligible block and the stack is not named like a property of
  \<open>Object.prototype\<close>, the lookup returns the glyph that \<open>_tinySDF\<close> builds in this very
  call from what \<open>draw\<close> returns for the id, on the \<open>TinySDF\<close> of the entry for the
  texture scale of the id or, when the entry has none, on a new one for the family and the
  weight of the stack. What \<open>glyphs\<close> held for the id plays no part; the new glyph is
  stored in \<open>glyphs\<close> under the id. \<open>requests\<close> and \<open>ranges\<close> of the entry, the other
  entries, the range requests and the suspended lookups are as before.
\<close>

theorem local_glyph_is_synthesized:
  assumes el: "doesSegmentSupportLocalGlyph (localIdeographFontFamily s) gid"
    and own: "\<not> inheritedKey stack"
    and st: "getAndCacheGlyphsStart draw s stack gid = (s', out)"
  shows "\<exists>fam scale sdf char g.
      localIdeographFontFamily s = Some fam
      \<and> scale = (if doesCharShouldHaveDoubleResolution gid then 2 else 1)
      \<and> sdf = (case (if doesCharShouldHaveDoubleResolution gid
                     then tinySDF2 (entryOf s stack) else tinySDF1 (entryOf s stack)) of
                 Some t \<Rightarrow> t
               | None \<Rightarrow> \<lparr>fontSize = 24 * scale, buffer = 8 * scale, radius = 8 * scale,
                           cutoff = 1 / 4, fontFamily = fam, fontWeight = stackFontWeight stack\<rparr>)
      \<and> char = draw sdf gid
      \<and> g = \<lparr>glyph_id = gid,
               bitmap = \<lparr>img_width = orElse (d_width char) (30 * of_nat scale),
                          img_height = orElse (d_height char) (30 * of_nat scale),
                          img_data = d_data char\<rparr>,
               metrics = \<lparr>m_width = orElse (glyphWidth char / of_nat scale) 24,
                           m_height = orElse (glyphHeight char / of_nat scale) 24,
                           m_left = orElse (glyphLeft char / of_nat scale + 1 / 2) 0,
                           m_top = orElse (glyphTop char / of_nat scale - 55 / 2) (- 8),
                           m_advance = orElse (glyphAdvance char / of_nat scale) 24,
                           isDoubleResolution = doesCharShouldHaveDoubleResolution gid\<rparr>\<rparr>
      \<and> out = Return (Glyph g)
      \<and> glyphs (entryOf s' stack) = (glyphs (entryOf s stack))(gid \<mapsto> Some g)
      \<and> requests (entryOf s' stack) = requests (entryOf s stack)
      \<and> ranges (entryOf s' stack) = ranges (entryOf s stack)
      \<and> (\<forall>st. st \<noteq> stack \<longrightarrow> entryOf s' st = entryOf s st)
      \<and> calls s' = calls s \<and> promises s' = promises s \<and> waiting s' = waiting s"
proof -
  from el have tr: "truthy (localIdeographFontFamily s)"
    by (simp add: doesSegmentSupportLocalGlyph_def Let_def)
  then obtain fam where fam: "localIdeographFontFamily s = Some fam" "fam \<noteq> []"
    by (auto simp: truthy_def split: option.splits)
  have nb: "trim gid \<noteq> []" using el by (rule local_not_blank)
  define scale :: nat where "scale = (if doesCharShouldHaveDoubleResolution gid then 2 else 1)"
  define sdf where "sdf = (case (if doesCharShouldHaveDoubleResolution gid
                     then tinySDF2 (entryOf s stack) else tinySDF1 (entryOf s stack)) of
                 Some t \<Rightarrow> t
               | None \<Rightarrow> \<lparr>fontSize = 24 * scale, buffer = 8 * scale, radius = 8 * scale,
                           cutoff = 1 / 4, fontFamily = fam, fontWeight = stackFontWeight stack\<rparr>)"
  define char where "char = draw sdf gid"
  define g where "g = \<lparr>glyph_id = gid,
               bitmap = \<lparr>img_width = orElse (d_width char) (30 * of_nat scale),
                          img_height = orElse (d_height char) (30 * of_nat scale),
                          img_data = d_data char\<rparr>,
               metrics = \<lparr>m_width = orElse (glyphWidth char / of_nat scale) 24,
                           m_height = orElse (glyphHeight char / of_nat scale) 24,
                           m_left = orElse (glyphLeft char / of_nat scale + 1 / 2) 0,
                           m_top = orElse (glyphTop char / of_nat scale - 55 / 2) (- 8),
                           m_advance = orElse (glyphAdvance char / of_nat scale) 24,
                           isDoubleResolution = doesCharShouldHaveDoubleResolution gid\<rparr>\<rparr>"
  obtain e' where t: "tinySDF draw (localIdeographFontFamily s) (entryOf s stack) stack gid = (Some g, e')"
    unfolding fam(1) g_def char_def sdf_def scale_def using fam(2)
    by (simp add: tinySDF_def Let_def)
  note fr = tinySDF_frame [OF t]
  from st el own nb t
  have s': "s' = putEntry s stack (e'\<lparr>glyphs := (glyphs e')(gid \<mapsto> Some g)\<rparr>)"
    and out: "out = Return (Glyph g)"
    by (simp_all add: getAndCacheGlyphsStart_def Let_def)
  have rest: "out = Return (Glyph g)
      \<and> glyphs (entryOf s' stack) = (glyphs (entryOf s stack))(gid \<mapsto> Some g)
      \<and> requests (entryOf s' stack) = requests (entryOf s stack)
      \<and> ranges (entryOf s' stack) = ranges (entryOf s stack)
      \<and> (\<forall>st. st \<noteq> stack \<longrightarrow> entryOf s' st = entryOf s st)
      \<and> calls s' = calls s \<and> promises s' = promises s \<and> waiting s' = waiting s"
    using out fr unfolding s' by simp
  from fam(1) scale_def sdf_def char_def g_def rest show ?thesis by blast
qed

theorem local_glyph_is_synthesized_witness:
  "glyphs (entryOf (run sampleDraw (newGlyphManager (Some [0x73]))
        [SetURL (Some [0x75]), Lookup [0x41] [0x61],
         Fulfil 0 [[0x4E2D] \<mapsto> Some (sampleGlyph [0x4E2D])], Resume 0]) [0x41]) [0x4E2D]
      = Some (Some (sampleGlyph [0x4E2D]))
   \<and> doesSegmentSupportLocalGlyph (Some [0x73]) [0x4E2D]
   \<and> snd (getAndCacheGlyphsStart sampleDraw (run sampleDraw (newGlyphManager (Some [0x73]))
        [SetURL (Some [0x75]), Lookup [0x41] [0x61],
         Fulfil 0 [[0x4E2D] \<mapsto> Some (sampleGlyph [0x4E2D])], Resume 0]) [0x41] [0x4E2D])
      = Return (Glyph \<lparr>glyph_id = [0x4E2D],
          bitmap = \<lparr>img_width = 2, img_height = 1, img_data = [48, 1]\<rparr>,
          metrics = \<lparr>m_width = 10, m_height = 11, m_left = 1 / 2, m_top = - 25 / 2,
            m_advance = 21 / 2, isDoubleResolution = True\<rparr>\<rparr>)"
proof -
  define s where "s = run sampleDraw (newGlyphManager (Some [0x73]))
        [SetURL (Some [0x75]), Lookup [0x41] [0x61],
         Fulfil 0 [[0x4E2D] \<mapsto> Some (sampleGlyph [0x4E2D])], Resume 0]"
  let ?gid = "[0x4E2D] :: jsstring"
  have dbl: "doesCharShouldHaveDoubleResolution ?gid"
    by (simp add: doesCharShouldHaveDoubleResolution_def Let_def block_defs isHighSurrogate_def)
  have elig: "doesSegmentSupportLocalGlyph (Some [0x73]) ?gid"
    by (simp add: doesSegmentSupportLocalGlyph_def Let_def truthy_def block_defs isHighSurrogate_def)
  have na: "\<not> doesSegmentSupportLocalGlyph (Some [0x73]) [0x61]"
    by (simp add: doesSegmentSupportLocalGlyph_def Let_def truthy_def block_defs isHighSurrogate_def)
  have fam: "localIdeographFontFamily s = Some [0x73]"
    and gl: "glyphs (entryOf s [0x41]) ?gid = Some (Some (sampleGlyph ?gid))"
    and t2: "tinySDF2 (entryOf s [0x41]) = None"
    unfolding s_def
    by (simp_all add: step_def getAndCacheGlyphsStart_def remoteStart_def getAndCacheGlyphsResume_def
        Let_def trim_def isWhiteSpace_def truthy_def readGlyph_def newGlyphManager_def newEntry_def
        entryOf_def putEntry_def na)
  have el: "doesSegmentSupportLocalGlyph (localIdeographFontFamily s) ?gid"
    unfolding fam by (rule elig)
  have own: "\<not> inheritedKey [0x41]" by simp
  obtain s' out where st: "getAndCacheGlyphsStart sampleDraw s [0x41] ?gid = (s', out)"
    by (cases "getAndCacheGlyphsStart sampleDraw s [0x41] ?gid")
  from local_glyph_is_synthesized [OF el own st]
  have "out = Return (Glyph \<lparr>glyph_id = ?gid,
          bitmap = \<lparr>img_width = 2, img_height = 1, img_data = [48, 1]\<rparr>,
          metrics = \<lparr>m_width = 10, m_height = 11, m_left = 1 / 2, m_top = - 25 / 2,
            m_advance = 21 / 2, isDoubleResolution = True\<rparr>\<rparr>)"
    unfolding fam by (auto simp: dbl t2 sampleDraw_def orElse_def)
  with st gl elig show ?thesis unfolding s_def by simp
qed

text \<open>
  C7 as stated fails for a stack named like a property of \<open>Object.prototype\<close>: with a
  local font family configured, the lookup of the Devanagari letter KA for the stack
  \<open>constructor\<close> throws a \<open>TypeError\<close>; nothing is synthesized and no entry is made.
\<close>

theorem local_glyph_inherited_stack:
  "doesSegmentSupportLocalGlyph (localIdeographFontFamily (newGlyphManager (Some [0x73]))) [0x0915]
   \<and> getAndCacheGlyphsStart sampleDraw (newGlyphManager (Some [0x73])) (ascii ''constructor'') [0x0915]
      = (newGlyphManager (Some [0x73]), Throw TypeError)"
proof -
  have "entries (newGlyphManager (Some [0x73])) (ascii ''constructor'') = None"
    by (simp add: newGlyphManager_def)
  then have "getAndCacheGlyphsStart sampleDraw (newGlyphManager (Some [0x73])) (ascii ''constructor'')
      [0x0915] = (newGlyphManager (Some [0x73]), Throw TypeError)"
    using inheritedKey_constructor by (rule start_type_error)
  moreover have "doesSegmentSupportLocalGlyph (localIdeographFontFamily (newGlyphManager (Some [0x73])))
      [0x0915]"
    by (simp add: doesSegmentSupportLocalGlyph_def Let_def truthy_def newGlyphManager_def block_defs
        isHighSurrogate_def)
  ultimately show ?thesis by simp
qed

subsection \<open>Ranges beyond the Basic Multilingual Plane\<close>

text \<open>
  C8, as amended: for a stack that is not named like a property of \<open>Object.prototype\<close>, a
  lookup of an id that is not blank, not locally eligible and not in \<open>glyphs\<close>, whose
  range starts above 65535, throws \<open>RangeOverflowError\<close>; no \<open>loadGlyphRange\<close> call is
  made, and \<open>requests\<close> and \<open>ranges\<close> of the entry are as before.
\<close>

theorem range_overflow_is_rejected:
  assumes nb: "trim gid \<noteq> []"
    and nl: "\<not> doesSegmentSupportLocalGlyph (localIdeographFontFamily s) gid"
    and nc: "glyphs (entryOf s stack) gid = None"
    and cp: "codePointAt0 gid = Some cp"
    and ov: "(cp div 256) * 256 > 65535"
    and own: "\<not> inheritedKey stack"
  shows "snd (getAndCacheGlyphsStart draw s stack gid) = Throw RangeOverflowError
      \<and> calls (fst (getAndCacheGlyphsStart draw s stack gid)) = calls s
      \<and> promises (fst (getAndCacheGlyphsStart draw s stack gid)) = promises s
      \<and> requests (entryOf (fst (getAndCacheGlyphsStart draw s stack gid)) stack)
          = requests (entryOf s stack)
      \<and> ranges (entryOf (fst (getAndCacheGlyphsStart draw s stack gid)) stack)
          = ranges (entryOf s stack)
      \<and> waiting (step draw s (Lookup stack gid)) = waiting s
      \<and> finished (step draw s (Lookup stack gid))
          = finished s @ [(stack, gid, Throw RangeOverflowError)]"
proof -
  have "\<not> inheritedKey gid"
  proof
    assume "inheritedKey gid"
    from inheritedKey_ascii [OF this] cp have "cp < 128" by simp
    with ov show False by simp
  qed
  with nc have un: "readGlyph (glyphs (entryOf s stack)) gid = Undefined"
    by (simp add: readGlyph_def)
  have "getAndCacheGlyphsStart draw s stack gid
      = (putEntry s stack (entryOf s stack), Throw RangeOverflowError)"
    using nb nl un cp ov own
    by (simp add: getAndCacheGlyphsStart_def remoteStart_def Let_def)
  then show ?thesis by (simp add: step_def)
qed

theorem range_overflow_is_rejected_witness:
  "trim [0xD83D, 0xDE00] \<noteq> []
   \<and> \<not> doesSegmentSupportLocalGlyph (localIdeographFontFamily (newGlyphManager (Some [0x73])))
        [0xD83D, 0xDE00]
   \<and> glyphs (entryOf (newGlyphManager (Some [0x73])) [0x41]) [0xD83D, 0xDE00] = None
   \<and> codePointAt0 [0xD83D, 0xDE00] = Some 0x1F600
   \<and> (0x1F600 div 256) * 256 > (65535 :: nat)
   \<and> \<not> inheritedKey [0x41]
   \<and> finished (step blankDraw (newGlyphManager (Some [0x73])) (Lookup [0x41] [0xD83D, 0xDE00]))
      = [([0x41], [0xD83D, 0xDE00], Throw RangeOverflowError)]
   \<and> calls (fst (getAndCacheGlyphsStart blankDraw (newGlyphManager (Some [0x73])) [0x41]
        [0xD83D, 0xDE00])) = []"
proof -
  let ?s = "newGlyphManager (Some [0x73])"
  let ?gid = "[0xD83D, 0xDE00] :: jsstring"
  have cp: "codePointAt0 ?gid = Some 0x1F600"
    by (simp add: isHighSurrogate_def isLowSurrogate_def pairCodePoint_def)
  have nb: "trim ?gid \<noteq> []" by (simp add: trim_def isWhiteSpace_def)
  have nl: "\<not> doesSegmentSupportLocalGlyph (localIdeographFontFamily ?s) ?gid"
    by (simp add: doesSegmentSupportLocalGlyph_def Let_def block_defs isHighSurrogate_def
        isLowSurrogate_def pairCodePoint_def)
  have nc: "glyphs (entryOf ?s [0x41]) ?gid = None" by (simp add: newEntry_def)
  have ov: "(0x1F600 div 256) * 256 > (65535 :: nat)" by simp
  have own: "\<not> inheritedKey [0x41]" by simp
  from range_overflow_is_rejected [OF nb nl nc cp ov own, of blankDraw] nb nl nc cp ov own
  show ?thesis by (simp add: newGlyphManager_def)
qed

text \<open>
  C8 as stated fails for a stack named like a property of \<open>Object.prototype\<close>: the lookup
  of U+1F600, whose range starts above 65535, for the stack \<open>constructor\<close> throws a
  \<open>TypeError\<close>, not \<open>RangeOverflowError\<close>: the lookup fails before it computes the range.
\<close>

theorem range_overflow_inherited_stack:
  "trim [0xD83D, 0xDE00] \<noteq> []
   \<and> \<not> doesSegmentSupportLocalGlyph (localIdeographFontFamily (newGlyphManager None))
        [0xD83D, 0xDE00]
   \<and> glyphs (entryOf (newGlyphManager None) (ascii ''constructor'')) [0xD83D, 0xDE00] = None
   \<and> codePointAt0 [0xD83D, 0xDE00] = Some 0x1F600
   \<and> (0x1F600 div 256) * 256 > (65535 :: nat)
   \<and> snd (getAndCacheGlyphsStart blankDraw (newGlyphManager None) (ascii ''constructor'')
        [0xD83D, 0xDE00]) = Throw TypeError"
proof -
  have "entries (newGlyphManager None) (ascii ''constructor'') = None"
    by (simp add: newGlyphManager_def)
  then have "getAndCacheGlyphsStart blankDraw (newGlyphManager None) (ascii ''constructor'')
      [0xD83D, 0xDE00] = (newGlyphManager None, Throw TypeError)"
    using inheritedKey_constructor by (rule start_type_error)
  then have "snd (getAndCacheGlyphsStart blankDraw (newGlyphManager None) (ascii ''constructor'')
      [0xD83D, 0xDE00]) = Throw TypeError"
    by simp
  moreover have "trim [0xD83D, 0xDE00] \<noteq> []" by (simp add: trim_def isWhiteSpace_def)
  moreover have "\<not> doesSegmentSupportLocalGlyph (localIdeographFontFamily (newGlyphManager None))
        [0xD83D, 0xDE00]"
    by (simp add: doesSegmentSupportLocalGlyph_def truthy_def newGlyphManager_def)
  moreover have "glyphs (entryOf (newGlyphManager None) (ascii ''constructor'')) [0xD83D, 0xDE00] = None"
    by (simp add: newEntry_def)
  moreover have "codePointAt0 [0xD83D, 0xDE00] = Some 0x1F600"
    by (simp add: isHighSurrogate_def isLowSurrogate_def pairCodePoint_def)
  moreover have "(0x1F600 div 256) * 256 > (65535 :: nat)" by simp
  ultimately show ?thesis by (intro conjI)
qed


end
